theory Spec2Isabelle
  imports Complex_Main "HOL-Library.Sublist"
begin

section \<open>JavaScript primitives used by the analyzers\<close>

text \<open>
  JavaScript numbers are modelled as exact reals (and as \<open>int\<close> where the source
  rounds or only adds integer literals); \<open>NaN\<close> and the infinities are outside the
  model. Strings are lists of characters, one element per code unit.

  \<open>Math.round\<close> rounds to the nearest integer, a tie going up; \<open>Math.floor\<close> is
  \<open>floor\<close>. \<open>Math.random()\<close> is a draw \<open>r\<close> with \<open>0 \<le> r < 1\<close>, passed in by the
  caller of each function that consumes one.
\<close>

definition Math_round :: "real \<Rightarrow> int" where
  "Math_round x = \<lfloor>x + 1 / 2\<rfloor>"

definition random_below :: "real \<Rightarrow> int \<Rightarrow> int" where
  \<comment> \<open>\<open>Math.floor(Math.random() * n)\<close> for the draw \<open>r\<close>\<close>
  "random_below r n = \<lfloor>r * real_of_int n\<rfloor>"

definition unit_draw :: "real \<Rightarrow> bool" where
  \<comment> \<open>the range of \<open>Math.random()\<close>\<close>
  "unit_draw r = (0 \<le> r \<and> r < 1)"

fun str_includes :: "string \<Rightarrow> string \<Rightarrow> bool" where
  \<comment> \<open>\<open>s.includes(sub)\<close>\<close>
  "str_includes [] sub = (sub = [])"
| "str_includes (c # cs) sub = (prefix sub (c # cs) \<or> str_includes cs sub)"

definition endsWith :: "string \<Rightarrow> string \<Rightarrow> bool" where
  \<comment> \<open>\<open>s.endsWith(t)\<close>\<close>
  "endsWith s t = (length t \<le> length s \<and> drop (length s - length t) s = t)"

fun split_on :: "char \<Rightarrow> string \<Rightarrow> string list" where
  \<comment> \<open>\<open>s.split(sep)\<close> for a one-character separator; the empty string gives \<open>[""]\<close>\<close>
  "split_on sep [] = [[]]"
| "split_on sep (c # cs) =
     (if c = sep then [] # split_on sep cs
      else (case split_on sep cs of
              [] \<Rightarrow> [[c]]
            | p # ps \<Rightarrow> (c # p) # ps))"

definition is_digit :: "char \<Rightarrow> bool" where
  \<comment> \<open>the character class \<open>[0-9]\<close>\<close>
  "is_digit c = (c \<in> set ''0123456789'')"

fun test_4digits :: "string \<Rightarrow> bool" where
  \<comment> \<open>\<open>/[0-9]{4}/.test(s)\<close>\<close>
  "test_4digits (a # b # c # d # rest) =
     ((is_digit a \<and> is_digit b \<and> is_digit c \<and> is_digit d) \<or> test_4digits (b # c # d # rest))"
| "test_4digits _ = False"

section \<open>The analysis record\<close>

text \<open>
  \<open>TrafficAnalyzer.analyzeDomain\<close> returns the first five fields; the type
  \<open>DomainAnalysis\<close> of \<open>types/analyzer\<close> has all thirteen. \<open>last_checked\<close> is the
  instant of \<open>new Date()\<close> in milliseconds: \<open>toISOString\<close> and \<open>new Date(string)\<close>
  carry it unchanged.
\<close>

record traffic_result =
  traffic_score :: int
  estimated_traffic :: int
  archive_snapshots :: int
  last_checked :: int
  status :: string

record DomainAnalysis = traffic_result +
  domain :: string
  indexed_pages :: int
  social_mentions :: int
  web_presence :: int
  mail_score :: real
  has_redirect :: bool
  redirect_url :: "string option"
  is_parked :: bool

section \<open>InstantTrafficAnalyzer (quickAnalyzer.ts)\<close>

definition KNOWN_TLDS :: "string list" where
  "KNOWN_TLDS = [''.com'', ''.net'', ''.org'', ''.io'']"

definition estimateScore :: "string \<Rightarrow> int" where
  "estimateScore d =
     (let score = 0;
          score = (if test_4digits d then score + 10 else score);
          score = (if list_ex (\<lambda>tld. endsWith d tld) KNOWN_TLDS then score + 20 else score);
          score = (if length d < 15 then score + 15 else score);
          score = (if length (split_on CHR ''.'' d) > 2 then score - 10 else score);
          score = (if str_includes d ''shop'' then score + 5 else score);
          score = (if str_includes d ''blog'' then score + 5 else score)
      in max 0 (min score 100))"

definition instant_estimateTraffic :: "real \<Rightarrow> real \<Rightarrow> int" where
  \<comment> \<open>\<open>InstantTrafficAnalyzer.estimateTraffic(score)\<close> with the draw \<open>r\<close>\<close>
  "instant_estimateTraffic score r =
     (let traffic = 0 in
      if score \<ge> 90 then 15000 + random_below r 5000
      else if score \<ge> 80 then 10000 + random_below r 5000
      else if score \<ge> 70 then 5000 + random_below r 5000
      else if score \<ge> 60 then 2000 + random_below r 3000
      else if score \<ge> 50 then 1000 + random_below r 1000
      else if score \<ge> 40 then 500 + random_below r 500
      else if score \<ge> 30 then 200 + random_below r 300
      else if score \<ge> 20 then 50 + random_below r 150
      else if score \<ge> 10 then random_below r 50
      else traffic)"

definition instant_analyze :: "string \<Rightarrow> real \<Rightarrow> int \<Rightarrow> DomainAnalysis" where
  \<comment> \<open>\<open>InstantTrafficAnalyzer.analyze(domain)\<close>: \<open>r\<close> is the draw of the estimator,
      \<open>t\<close> the clock at \<open>new Date()\<close>\<close>
  "instant_analyze d r t =
     (let trafficScore = estimateScore d;
          estimatedTraffic = instant_estimateTraffic (real_of_int trafficScore) r
      in \<lparr> traffic_score = trafficScore,
           estimated_traffic = estimatedTraffic,
           archive_snapshots = 0,
           last_checked = t,
           status = ''available'',
           domain = d,
           indexed_pages = 0,
           social_mentions = 0,
           web_presence = 0,
           mail_score = 0,
           has_redirect = False,
           redirect_url = None,
           is_parked = False \<rparr>)"

section \<open>TrafficAnalyzer (trafficAnalyzer.ts)\<close>

text \<open>
  What a probe's HTTP request can come to: \<open>fetch\<close> rejects (network error, timeout),
  the response is not \<open>ok\<close>, the body is not JSON, or the body parses to a value.
\<close>

datatype 'a http_outcome = FetchThrows | NotOk | BadBody | Json 'a

text \<open>
  The DNS-over-HTTPS answer: JSON \<open>null\<close>, or an object whose \<open>Answer\<close> field, when
  present, lists the records; a record is represented by its \<open>type\<close> field.
\<close>

datatype dns_json = DnsNull | DnsObject "int list option"

text \<open>
  A JavaScript \<open>Date\<close>: its time value in milliseconds, or the invalid date, whose time
  value is \<open>NaN\<close> and for which every comparison is false.
\<close>

datatype date = Date int | Invalid_Date

text \<open>
  The platform functions the archive probe calls, taken as parameters: \<open>parseInt\<close>
  (\<open>None\<close> is \<open>NaN\<close>) and the local-time constructor \<open>new Date(year, month, day)\<close>.
\<close>

record platform =
  parseInt :: "string \<Rightarrow> int option"
  newDate :: "int \<Rightarrow> int \<Rightarrow> int \<Rightarrow> date"

text \<open>
  The body of the archive availability API, reduced to what the probe reads:
  \<open>data.archived_snapshots.closest\<close> when all three are present, \<open>None\<close> otherwise.
\<close>

record closest_snapshot =
  timestamp :: string
  available :: bool

record archive_history =
  snapshots :: int
  recentSnapshots :: int
  lastSeen :: "date option"

record dns_status =
  hasNameservers :: bool
  hasWebsite :: bool

record AnalysisProgress =
  step :: string
  message :: string
  progress :: nat

datatype callback_result = Returns | Throws

type_synonym progress_callback = "(AnalysisProgress \<Rightarrow> callback_result) option"

definition emitProgress :: "progress_callback \<Rightarrow> string \<Rightarrow> string \<Rightarrow> nat \<Rightarrow> callback_result" where
  "emitProgress onProgress st msg p =
     (case onProgress of
        None \<Rightarrow> Returns
      | Some f \<Rightarrow> f \<lparr> step = st, message = msg, progress = p \<rparr>)"

definition substring :: "string \<Rightarrow> nat \<Rightarrow> nat \<Rightarrow> string" where
  \<comment> \<open>\<open>s.substring(a, b)\<close> for \<open>a \<le> b\<close>\<close>
  "substring s a b = take (b - a) (drop a s)"

definition no_history :: archive_history where
  "no_history = \<lparr> snapshots = 0, recentSnapshots = 0, lastSeen = None \<rparr>"

definition date_after :: "date \<Rightarrow> int \<Rightarrow> bool" where
  \<comment> \<open>\<open>d > other\<close> for a valid \<open>other\<close> with the time value \<open>t\<close>\<close>
  "date_after d t = (case d of Date u \<Rightarrow> u > t | Invalid_Date \<Rightarrow> False)"

definition checkArchiveHistory ::
    "platform \<Rightarrow> int \<Rightarrow> closest_snapshot option http_outcome \<Rightarrow> archive_history" where
  \<comment> \<open>\<open>threeMonthsAgo\<close> is the time value of \<open>new Date()\<close> after \<open>setMonth(getMonth() - 3)\<close>\<close>
  "checkArchiveHistory pf threeMonthsAgo response =
     (case response of
        Json (Some closest) \<Rightarrow>
          if timestamp closest = [] then no_history
          else
            (let year = parseInt pf (substring (timestamp closest) 0 4);
                 month = map_option (\<lambda>m. m - 1) (parseInt pf (substring (timestamp closest) 4 6));
                 day = parseInt pf (substring (timestamp closest) 6 8);
                 seen = (case (year, month, day) of
                           (Some y, Some m, Some d) \<Rightarrow> newDate pf y m d
                         | _ \<Rightarrow> Invalid_Date)
             in \<lparr> snapshots = (if available closest then 1 else 0),
                  recentSnapshots = (if date_after seen threeMonthsAgo then 1 else 0),
                  lastSeen = Some seen \<rparr>)
      | Json None \<Rightarrow> no_history
      | _ \<Rightarrow> no_history)"

definition checkDNS :: "dns_json http_outcome \<Rightarrow> dns_status" where
  "checkDNS response =
     (case response of
        Json (DnsObject (Some answer)) \<Rightarrow>
          \<lparr> hasNameservers = (length answer > 0),
            hasWebsite = list_ex (\<lambda>record_type. record_type = 1) answer \<rparr>
      | Json (DnsObject None) \<Rightarrow> \<lparr> hasNameservers = False, hasWebsite = False \<rparr>
      | _ \<Rightarrow> \<lparr> hasNameservers = False, hasWebsite = False \<rparr>)"

definition calculateTrafficScore :: "real \<Rightarrow> real \<Rightarrow> bool \<Rightarrow> date option \<Rightarrow> int \<Rightarrow> int" where
  \<comment> \<open>the fields of \<open>metrics\<close> in order, then the time value of \<open>new Date()\<close>\<close>
  "calculateTrafficScore recent totalSnapshots website seen now =
     (let score = 0;
          score = score + min (recent * 40) 40;
          score = score + min (totalSnapshots * 40) 40;
          score = (if website then score + 10 else score);
          score = (case seen of
                     Some (Date t) \<Rightarrow>
                       (let monthsAgo = real_of_int (now - t) / (1000 * 60 * 60 * 24 * 30) in
                        if monthsAgo \<le> 1 then score + 10
                        else if monthsAgo \<le> 3 then score + 5
                        else if monthsAgo \<le> 6 then score + 2
                        else score)
                   | _ \<Rightarrow> score)
      in min (Math_round score) 100)"

definition estimateTraffic :: "real \<Rightarrow> real \<Rightarrow> int" where
  \<comment> \<open>\<open>TrafficAnalyzer.estimateTraffic(score)\<close> with the draw \<open>r\<close>\<close>
  "estimateTraffic score r =
     (if score \<ge> 90 then 15000 + random_below r 5000
      else if score \<ge> 80 then 10000 + random_below r 5000
      else if score \<ge> 70 then 5000 + random_below r 5000
      else if score \<ge> 60 then 2000 + random_below r 3000
      else if score \<ge> 50 then 1000 + random_below r 1000
      else if score \<ge> 40 then 500 + random_below r 500
      else if score \<ge> 30 then 200 + random_below r 300
      else if score \<ge> 20 then 50 + random_below r 150
      else if score \<ge> 10 then random_below r 50
      else 0)"

text \<open>
  The environment of one call of \<open>analyzeDomain\<close>: the progress callback, the platform,
  what the two requests come to, the clock at each \<open>new Date()\<close> and the draw of the
  estimator.
\<close>

record analyzer_env =
  onProgress :: progress_callback
  pf :: platform
  dns_response :: "dns_json http_outcome"
  archive_response :: "closest_snapshot option http_outcome"
  threeMonthsAgo :: int
  scoring_clock :: int
  checked_clock :: int
  draw :: real

text \<open>
  The body of the \<open>try\<close> block: \<open>None\<close> when an exception leaves it. The probes catch
  their own errors, so only the progress callback can throw here.
\<close>

definition analyzeDomain_try :: "analyzer_env \<Rightarrow> traffic_result option" where
  "analyzeDomain_try e =
     (if emitProgress (onProgress e) ''start'' ''Starting domain analysis...'' 0 = Throws then None
      else if emitProgress (onProgress e) ''dns'' ''Checking domain status...'' 25 = Throws then None
      else
        (let dnsStatus = checkDNS (dns_response e) in
         if emitProgress (onProgress e) ''archive'' ''Checking archive history...'' 50 = Throws then None
         else
           (let archiveData = checkArchiveHistory (pf e) (threeMonthsAgo e) (archive_response e) in
            if emitProgress (onProgress e) ''scoring'' ''Calculating traffic potential...'' 75 = Throws
            then None
            else
              (let trafficScore =
                     calculateTrafficScore (real_of_int (recentSnapshots archiveData))
                       (real_of_int (snapshots archiveData)) (hasWebsite dnsStatus)
                       (lastSeen archiveData) (scoring_clock e);
                   estimatedTraffic = estimateTraffic (real_of_int trafficScore) (draw e)
               in
               if emitProgress (onProgress e) ''complete'' ''Analysis complete'' 100 = Throws then None
               else Some \<lparr> traffic_score = trafficScore,
                           estimated_traffic = estimatedTraffic,
                           archive_snapshots = snapshots archiveData,
                           last_checked = checked_clock e,
                           status = (if hasNameservers dnsStatus then ''registered''
                                     else ''available'') \<rparr>))))"

datatype rejection = CallbackThrew

definition analyzeDomain :: "analyzer_env \<Rightarrow> rejection + traffic_result" where
  \<comment> \<open>\<open>Inl\<close>: the promise rejects, the exception of the callback thrown in the \<open>catch\<close> block\<close>
  "analyzeDomain e =
     (case analyzeDomain_try e of
        Some result \<Rightarrow> Inr result
      | None \<Rightarrow>
          if emitProgress (onProgress e) ''error'' ''Analysis failed'' 100 = Throws
          then Inl CallbackThrew
          else Inr \<lparr> traffic_score = 0,
                     estimated_traffic = 0,
                     archive_snapshots = 0,
                     last_checked = checked_clock e,
                     status = ''error'' \<rparr>)"

section \<open>AdvancedTrafficDetector (scripts/trafficDetector.js)\<close>

text \<open>
  What \<open>axios.get\<close> comes to: it throws (network error, timeout, a status outside
  2xx), or it returns a response with a status and a body. \<open>response.data\<close> is what
  the response transform of axios makes of the body: a string (the body itself when it
  is not JSON, the decoded string when the body is a JSON string literal) or another
  JSON value (object, array, number, boolean, null). The transform belongs to the
  library and is taken as a parameter.
\<close>

datatype axios_data = StringData string | OtherData

datatype axios_outcome = AxiosThrows | AxiosResponse nat string

type_synonym response_transform = "string \<Rightarrow> axios_data"

definition lower_char :: "char \<Rightarrow> char" where
  "lower_char c =
     (case map_of (zip ''ABCDEFGHIJKLMNOPQRSTUVWXYZ'' ''abcdefghijklmnopqrstuvwxyz'') c of
        Some l \<Rightarrow> l
      | None \<Rightarrow> c)"

definition toLowerCase :: "string \<Rightarrow> string" where
  \<comment> \<open>\<open>s.toLowerCase()\<close> on ASCII text\<close>
  "toLowerCase s = map lower_char s"

definition parkingSigns :: "string list" where
  "parkingSigns =
     [''domain is for sale'',
      ''buy this domain'',
      ''domain parking'',
      ''domain registered'',
      ''domain owner'',
      ''domain expired'',
      ''parkingcrew'',
      ''sedoparking'',
      ''hugedomains'',
      ''undeveloped.com'']"

definition checkForParkedDomainSigns :: "response_transform \<Rightarrow> axios_outcome \<Rightarrow> bool" where
  \<comment> \<open>data that is not a string has no \<open>toLowerCase\<close>: the \<open>TypeError\<close> is caught\<close>
  "checkForParkedDomainSigns transform response =
     (case response of
        AxiosResponse code body \<Rightarrow>
          if code = 200
          then (case transform body of
                  StringData page \<Rightarrow>
                    (let content = toLowerCase page
                     in list_ex (\<lambda>sign. str_includes content sign) parkingSigns)
                | OtherData \<Rightarrow> False)
          else False
      | AxiosThrows \<Rightarrow> False)"

text \<open>
  A JavaScript number that may be \<open>NaN\<close>, with the arithmetic the detector uses: a
  product, a sum and \<open>Math.min\<close> are \<open>NaN\<close> as soon as one operand is.
\<close>

datatype number = Num real | NaN

definition num_times :: "number \<Rightarrow> number \<Rightarrow> number" where
  "num_times a b = (case (a, b) of (Num x, Num y) \<Rightarrow> Num (x * y) | _ \<Rightarrow> NaN)"

definition num_plus :: "number \<Rightarrow> number \<Rightarrow> number" where
  "num_plus a b = (case (a, b) of (Num x, Num y) \<Rightarrow> Num (x + y) | _ \<Rightarrow> NaN)"

definition Math_min :: "number \<Rightarrow> number \<Rightarrow> number" where
  "Math_min a b = (case (a, b) of (Num x, Num y) \<Rightarrow> Num (min x y) | _ \<Rightarrow> NaN)"

definition digit_value :: "char \<Rightarrow> nat" where
  "digit_value c =
     (case map_of (zip ''0123456789'' [0, 1, 2, 3, 4, 5, 6, 7, 8, 9]) c of
        Some v \<Rightarrow> v
      | None \<Rightarrow> 0)"

definition parseInt10 :: "string \<Rightarrow> number" where
  \<comment> \<open>\<open>parseInt(s, 10)\<close> on a string without leading white space or sign: the value of
      the leading digits, \<open>NaN\<close> when there is none\<close>
  "parseInt10 s =
     (let digits = takeWhile is_digit s
      in if digits = [] then NaN
         else Num (real (foldl (\<lambda>n c. 10 * n + digit_value c) 0 digits)))"

definition digit_or_comma :: "char \<Rightarrow> bool" where
  \<comment> \<open>the character class \<open>[0-9,]\<close>\<close>
  "digit_or_comma c = (is_digit c \<or> c = CHR '','')"

definition match_about_at :: "string \<Rightarrow> string option" where
  \<comment> \<open>the group captured when \<open>/About ([0-9,]+) results/\<close> matches at the start of \<open>s\<close>;
      a space is not in the class, so the group is the whole run of class characters\<close>
  "match_about_at s =
     (if prefix ''About '' s
      then (let rest = drop (length ''About '') s;
                run = takeWhile digit_or_comma rest;
                after = dropWhile digit_or_comma rest
            in if run \<noteq> [] \<and> prefix '' results'' after then Some run else None)
      else None)"

fun match_about :: "string \<Rightarrow> string option" where
  \<comment> \<open>\<open>match[1]\<close> of \<open>content.match(/About ([0-9,]+) results/)\<close>: the leftmost match\<close>
  "match_about [] = None"
| "match_about (c # cs) =
     (case match_about_at (c # cs) of
        Some run \<Rightarrow> Some run
      | None \<Rightarrow> match_about cs)"

definition checkIndexingStatus :: "response_transform \<Rightarrow> axios_outcome \<Rightarrow> number" where
  \<comment> \<open>data that is not a string has no \<open>includes\<close> or no \<open>match\<close>: the \<open>TypeError\<close> is caught\<close>
  "checkIndexingStatus transform response =
     (case response of
        AxiosResponse code body \<Rightarrow>
          if code = 200
          then (case transform body of
                  StringData content \<Rightarrow>
                    if str_includes content ''did not match any documents'' then Num 0
                    else (case match_about content of
                            Some run \<Rightarrow> parseInt10 (filter (\<lambda>c. c \<noteq> CHR '','') run)
                          | None \<Rightarrow> if str_includes content ''result'' then Num 1 else Num 0)
                | OtherData \<Rightarrow> Num 0)
          else Num 0
      | AxiosThrows \<Rightarrow> Num 0)"

text \<open>
  What a lookup of \<open>dns.resolveMx\<close> or \<open>dns.resolveTxt\<close> comes to: it rejects, or it
  gives the records. A TXT record is the list of its strings.
\<close>

datatype 'a dns_lookup = LookupFails | Records "'a list"

definition checkDnsMailConfiguration ::
    "'mx dns_lookup \<Rightarrow> string list dns_lookup \<Rightarrow> string list dns_lookup \<Rightarrow> real" where
  \<comment> \<open>the lookups of the MX records, of the TXT records and of the TXT records of
      \<open>_dmarc.domain\<close>; the last is made only when the second has succeeded\<close>
  "checkDnsMailConfiguration mxLookup txtLookup dmarcLookup =
     (let mailScore = 0;
          mailScore = (case mxLookup of
                         Records mxRecords \<Rightarrow> mailScore + real (length mxRecords) * 2
                       | LookupFails \<Rightarrow> mailScore);
          mailScore = (case txtLookup of
                         Records txtRecords \<Rightarrow>
                           (let spfRecords =
                                  filter (\<lambda>record. list_ex (\<lambda>txt. str_includes (toLowerCase txt) ''spf'')
                                                      record) txtRecords;
                                mailScore = mailScore + real (length spfRecords) * 1.5
                            in case dmarcLookup of
                                 Records dmarcRecords \<Rightarrow> mailScore + real (length dmarcRecords) * 1.5
                               | LookupFails \<Rightarrow> mailScore)
                       | LookupFails \<Rightarrow> mailScore)
      in mailScore)"

text \<open>
  The five probe results that \<open>calculate_comprehensive_traffic_score\<close> destructures from
  \<open>Promise.all\<close>.
\<close>

record probe_results =
  archiveSnapshots :: real
  archiveFrequency :: real
  indexedPages :: real
  mailScore :: real
  hasRedirect :: bool
  redirectUrl :: "string option"
  isParked :: bool

record detector_results =
  res_archive_snapshots :: real
  res_archive_frequency :: real
  res_indexed_pages :: real
  res_mail_score :: real
  res_has_redirect :: bool
  res_redirect_url :: "string option"
  res_is_parked :: bool
  res_traffic_score :: real
  res_estimated_traffic :: int
  res_has_traffic :: bool

definition comprehensive_finalScore :: "probe_results \<Rightarrow> real" where
  \<comment> \<open>lines 201 to 227: the value stored in \<open>results.traffic_score\<close>\<close>
  "comprehensive_finalScore p =
     (let finalScore = 0;
          archiveScore = min (archiveSnapshots p * 1.5) 15 + min (archiveFrequency p * 5) 10;
          finalScore = finalScore + archiveScore;
          indexingScore = min (indexedPages p * 0.5) 30;
          finalScore = finalScore + indexingScore;
          mailConfigScore = min (mailScore p * 2) 25;
          finalScore = finalScore + mailConfigScore;
          redirectScore = (if hasRedirect p then 10 else 0);
          finalScore = finalScore + redirectScore;
          parkedScore = (if isParked p then 10 else 0);
          finalScore = finalScore + parkedScore
      in min finalScore 100)"

definition comprehensive_estimate :: "real \<Rightarrow> real \<Rightarrow> int" where
  \<comment> \<open>lines 229 to 241: the value stored in \<open>results.estimated_traffic\<close>, with the draw \<open>r\<close>\<close>
  "comprehensive_estimate finalScore r =
     (if finalScore > 80 then random_below r 15000 + 5000
      else if finalScore > 60 then random_below r 4000 + 1000
      else if finalScore > 40 then random_below r 900 + 100
      else if finalScore > 20 then random_below r 90 + 10
      else random_below r 10)"

definition calculate_comprehensive_traffic_score :: "probe_results \<Rightarrow> real \<Rightarrow> detector_results" where
  "calculate_comprehensive_traffic_score p r =
     (let finalScore = comprehensive_finalScore p;
          estimatedTraffic = comprehensive_estimate finalScore r
      in \<lparr> res_archive_snapshots = archiveSnapshots p,
           res_archive_frequency = archiveFrequency p,
           res_indexed_pages = indexedPages p,
           res_mail_score = mailScore p,
           res_has_redirect = hasRedirect p,
           res_redirect_url = redirectUrl p,
           res_is_parked = isParked p,
           res_traffic_score = finalScore,
           res_estimated_traffic = estimatedTraffic,
           res_has_traffic = (finalScore > 10) \<rparr>)"

text \<open>
  Lines 201 to 227 once more, in the arithmetic of JavaScript numbers: the score stored
  in the record when a probe result is \<open>NaN\<close>.
\<close>

definition comprehensive_finalScore_js ::
    "number \<Rightarrow> number \<Rightarrow> number \<Rightarrow> number \<Rightarrow> bool \<Rightarrow> bool \<Rightarrow> number" where
  "comprehensive_finalScore_js archiveSnaps archiveFreq indexed mail redirected parked =
     (let finalScore = Num 0;
          archiveScore = num_plus (Math_min (num_times archiveSnaps (Num 1.5)) (Num 15))
                                  (Math_min (num_times archiveFreq (Num 5)) (Num 10));
          finalScore = num_plus finalScore archiveScore;
          indexingScore = Math_min (num_times indexed (Num 0.5)) (Num 30);
          finalScore = num_plus finalScore indexingScore;
          mailConfigScore = Math_min (num_times mail (Num 2)) (Num 25);
          finalScore = num_plus finalScore mailConfigScore;
          redirectScore = (if redirected then Num 10 else Num 0);
          finalScore = num_plus finalScore redirectScore;
          parkedScore = (if parked then Num 10 else Num 0);
          finalScore = num_plus finalScore parkedScore
      in Math_min finalScore (Num 100))"

section \<open>HybridAnalyzer (quickAnalyzer.ts)\<close>

type_synonym cache = "string \<rightharpoonup> DomainAnalysis"

definition CACHE_TTL :: int where
  "CACHE_TTL = 1000 * 60 * 60"

definition BATCH_SIZE :: nat where
  "BATCH_SIZE = 3"

text \<open>
  The environment of one call of \<open>analyze\<close>: the clock at \<open>Date.now()\<close> and at the two
  \<open>new Date()\<close>, what the DNS request comes to, the five draws in the order the call
  consumes them, and the instant at which the DNS request settles, which orders the
  continuations of the calls that are in flight together.
\<close>

record call_env =
  clock_now :: int
  draw_traffic :: real
  instant_clock :: int
  dns_reply :: "dns_json http_outcome"
  settled_at :: nat
  draw_archive :: real
  draw_indexed :: real
  draw_social :: real
  draw_web :: real
  final_clock :: int

definition hybrid_checkDNS :: "dns_json http_outcome \<Rightarrow> bool" where
  \<comment> \<open>\<open>HybridAnalyzer.checkDNS\<close>; it catches every error of its own\<close>
  "hybrid_checkDNS response =
     (case response of
        Json (DnsObject (Some answer)) \<Rightarrow> length answer > 0
      | Json (DnsObject None) \<Rightarrow> False
      | _ \<Rightarrow> False)"

definition cache_hit :: "cache \<Rightarrow> int \<Rightarrow> string \<Rightarrow> DomainAnalysis option" where
  \<comment> \<open>the cached record when \<open>analyze\<close> returns it: present and younger than the TTL\<close>
  "cache_hit c now d =
     (case c d of
        None \<Rightarrow> None
      | Some cached \<Rightarrow> if now - last_checked cached < CACHE_TTL then Some cached else None)"

text \<open>
  The record \<open>analyze\<close> builds on a cache miss. Nothing after \<open>checkDNS\<close> in the \<open>try\<close>
  block can throw, so the \<open>catch\<close> branch, which returns \<open>instant\<close>, is never taken.
\<close>

definition hybrid_fresh :: "call_env \<Rightarrow> string \<Rightarrow> DomainAnalysis" where
  "hybrid_fresh e d =
     (let instant = instant_analyze d (draw_traffic e) (instant_clock e);
          dnsActive = hybrid_checkDNS (dns_reply e)
      in instant
           \<lparr> status := (if dnsActive then ''registered'' else ''available''),
             traffic_score :=
               Math_round (real_of_int (traffic_score instant) * (if dnsActive then 1.5 else 0.8)),
             estimated_traffic := estimated_traffic instant,
             archive_snapshots := random_below (draw_archive e) 10,
             indexed_pages := random_below (draw_indexed e) 100,
             social_mentions := random_below (draw_social e) 50,
             web_presence := random_below (draw_web e) 100,
             mail_score := 0,
             has_redirect := False,
             redirect_url := None,
             is_parked := False,
             last_checked := final_clock e \<rparr>)"

definition hybrid_analyze :: "call_env \<Rightarrow> cache \<Rightarrow> string \<Rightarrow> DomainAnalysis \<times> cache" where
  \<comment> \<open>\<open>HybridAnalyzer.analyze(domain)\<close>: the record returned and the cache afterwards\<close>
  "hybrid_analyze e c d =
     (case cache_hit c (clock_now e) d of
        Some cached \<Rightarrow> (cached, c)
      | None \<Rightarrow> (let analysis = hybrid_fresh e d in (analysis, c(d \<mapsto> analysis))))"

text \<open>
  One group of \<open>analyzeBatch\<close>: \<open>batch.map\<close> starts the calls in order, and each runs up
  to its \<open>await\<close> before the next starts, so every call of the group reads the cache as
  it was when the group began. The calls that missed write their record to the cache
  when their DNS request settles, in that order. \<open>Promise.all\<close> gives the records in the
  order of the calls. The call for the domain at position \<open>k\<close> of the input has the
  environment \<open>env k\<close>.
\<close>

definition run_group ::
    "(nat \<Rightarrow> call_env) \<Rightarrow> nat \<Rightarrow> string list \<Rightarrow> cache \<Rightarrow> DomainAnalysis list \<times> cache" where
  "run_group env i batch c =
     (let calls = zip [i ..< i + length batch] batch;
          analysis = map (\<lambda>(k, d). fst (hybrid_analyze (env k) c d)) calls;
          missed = filter (\<lambda>(k, d). Option.is_none (cache_hit c (clock_now (env k)) d)) calls;
          writes = sort_key (\<lambda>(k, d). settled_at (env k)) missed
      in (analysis, foldl (\<lambda>c' (k, d). c'(d \<mapsto> hybrid_fresh (env k) d)) c writes))"

function batch_loop ::
    "(nat \<Rightarrow> call_env) \<Rightarrow> string list \<Rightarrow> nat \<Rightarrow> DomainAnalysis list \<Rightarrow> cache
      \<Rightarrow> DomainAnalysis list \<times> cache" where
  "batch_loop env domains i results c =
     (if i < length domains then
        (let batch = take BATCH_SIZE (drop i domains);
             (analysis, c') = run_group env i batch c
         in batch_loop env domains (i + BATCH_SIZE) (results @ analysis) c')
      else (results, c))"
  by pat_completeness auto
termination
  by (relation "measure (\<lambda>(env, domains, i, results, c). length domains - i)")
     (auto simp: BATCH_SIZE_def)

definition analyzeBatch ::
    "(nat \<Rightarrow> call_env) \<Rightarrow> cache \<Rightarrow> string list \<Rightarrow> DomainAnalysis list \<times> cache" where
  "analyzeBatch env c domains = batch_loop env domains 0 [] c"

section \<open>Persisting an analysis\<close>

text \<open>
  The column values of the \<open>update\<close> in \<open>analyzeDomain\<close> of \<open>lib/supabase.ts\<close>, applied to
  the stored row.
\<close>

definition client_update :: "DomainAnalysis \<Rightarrow> DomainAnalysis \<Rightarrow> int \<Rightarrow> DomainAnalysis" where
  "client_update row analysis now =
     row \<lparr> status := status analysis,
           traffic_score := traffic_score analysis,
           estimated_traffic := estimated_traffic analysis,
           archive_snapshots := archive_snapshots analysis,
           indexed_pages := indexed_pages analysis,
           social_mentions := social_mentions analysis,
           web_presence := web_presence analysis,
           mail_score := mail_score analysis,
           has_redirect := has_redirect analysis,
           redirect_url := redirect_url analysis,
           is_parked := is_parked analysis,
           last_checked := now \<rparr>"

text \<open>
  The row that \<open>scripts/importDomains.js\<close> and the scheduler script insert for a new
  domain, from the record of \<open>calculate_comprehensive_traffic_score\<close>. That record has no
  field \<open>social_mentions\<close> or \<open>web_presence\<close>, so the two columns are left unset.
\<close>

record domain_row =
  row_domain :: string
  row_status :: string
  row_traffic_score :: real
  row_estimated_traffic :: int
  row_archive_snapshots :: real
  row_indexed_pages :: real
  row_social_mentions :: "int option"
  row_web_presence :: "int option"
  row_mail_score :: real
  row_has_redirect :: bool
  row_redirect_url :: "string option"
  row_is_parked :: bool
  row_last_checked :: int

definition import_row :: "string \<Rightarrow> detector_results \<Rightarrow> int \<Rightarrow> domain_row" where
  "import_row d analysis now =
     \<lparr> row_domain = d,
       row_status = ''available'',
       row_traffic_score = res_traffic_score analysis,
       row_estimated_traffic = res_estimated_traffic analysis,
       row_archive_snapshots = res_archive_snapshots analysis,
       row_indexed_pages = res_indexed_pages analysis,
       row_social_mentions = None,
       row_web_presence = None,
       row_mail_score = res_mail_score analysis,
       row_has_redirect = res_has_redirect analysis,
       row_redirect_url = res_redirect_url analysis,
       row_is_parked = res_is_parked analysis,
       row_last_checked = now \<rparr>"

section \<open>The vocabulary of the specification\<close>

subsection \<open>The lexical scorer, as the specification words it\<close>

definition has_year_pattern :: "string \<Rightarrow> bool" where
  \<comment> \<open>the name contains four digits in a row\<close>
  "has_year_pattern d = (\<exists>ds. length ds = 4 \<and> list_all is_digit ds \<and> sublist ds d)"

definition has_known_tld :: "string \<Rightarrow> bool" where
  \<comment> \<open>the name ends with a TLD of the allow-list\<close>
  "has_known_tld d = (\<exists>tld \<in> set KNOWN_TLDS. suffix tld d)"

definition subdomain_levels :: "string \<Rightarrow> nat" where
  \<comment> \<open>the labels below the top-level one: \<open>example.com\<close> has one, \<open>www.example.com\<close> two\<close>
  "subdomain_levels d = count_list d CHR ''.''"

definition lexical_score_spec :: "string \<Rightarrow> int" where
  "lexical_score_spec d =
     max 0 (min 100
       ((if has_year_pattern d then 10 else 0)
        + (if has_known_tld d then 20 else 0)
        + (if length d < 15 then 15 else 0)
        + (if subdomain_levels d > 1 then - 10 else 0)
        + (if sublist ''shop'' d then 5 else 0)
        + (if sublist ''blog'' d then 5 else 0)))"

subsection \<open>The bucket table of the traffic estimator\<close>

definition spec_bucket :: "real \<Rightarrow> int \<times> int" where
  \<comment> \<open>the base of the bucket of a score and the largest jitter added to it\<close>
  "spec_bucket s =
     (if s \<ge> 90 then (15000, 4999)
      else if s \<ge> 80 then (10000, 4999)
      else if s \<ge> 70 then (5000, 4999)
      else if s \<ge> 60 then (2000, 2999)
      else if s \<ge> 50 then (1000, 999)
      else if s \<ge> 40 then (500, 499)
      else if s \<ge> 30 then (200, 299)
      else if s \<ge> 20 then (50, 149)
      else if s \<ge> 10 then (0, 49)
      else (0, 0))"

subsection \<open>Parking phrases, whatever the letter case\<close>

definition letter_pairs :: "(char \<times> char) list" where
  \<comment> \<open>each small letter with its capital\<close>
  "letter_pairs = zip ''abcdefghijklmnopqrstuvwxyz'' ''ABCDEFGHIJKLMNOPQRSTUVWXYZ''"

definition same_letter :: "char \<Rightarrow> char \<Rightarrow> bool" where
  \<comment> \<open>the same character, or the small and the capital form of one letter\<close>
  "same_letter a b = (a = b \<or> (a, b) \<in> set letter_pairs \<or> (b, a) \<in> set letter_pairs)"

definition contains_ignoring_case :: "string \<Rightarrow> string \<Rightarrow> bool" where
  \<comment> \<open>some part of the text is the phrase, letter for letter, whatever the case\<close>
  "contains_ignoring_case body phrase =
     (\<exists>part. sublist part body \<and> list_all2 same_letter part phrase)"

subsection \<open>Whether a score is in range\<close>

definition within_0_100 :: "number \<Rightarrow> bool" where
  "within_0_100 x = (case x of Num r \<Rightarrow> 0 \<le> r \<and> r \<le> 100 | NaN \<Rightarrow> False)"

subsection \<open>What the DNS answer says, and when an exception leaves the orchestrator\<close>

definition nameservers_resolve :: "dns_json http_outcome \<Rightarrow> bool" where
  \<comment> \<open>the request succeeded and its answer lists at least one record\<close>
  "nameservers_resolve response =
     (\<exists>answer. response = Json (DnsObject (Some answer)) \<and> answer \<noteq> [])"

definition try_events :: "AnalysisProgress list" where
  \<comment> \<open>the progress events emitted inside the \<open>try\<close> block of \<open>analyzeDomain\<close>\<close>
  "try_events =
     [\<lparr> step = ''start'', message = ''Starting domain analysis...'', progress = 0 \<rparr>,
      \<lparr> step = ''dns'', message = ''Checking domain status...'', progress = 25 \<rparr>,
      \<lparr> step = ''archive'', message = ''Checking archive history...'', progress = 50 \<rparr>,
      \<lparr> step = ''scoring'', message = ''Calculating traffic potential...'', progress = 75 \<rparr>,
      \<lparr> step = ''complete'', message = ''Analysis complete'', progress = 100 \<rparr>]"

definition exception_escapes :: "progress_callback \<Rightarrow> bool" where
  \<comment> \<open>a callback is installed and throws on one of these events\<close>
  "exception_escapes cb =
     (case cb of None \<Rightarrow> False | Some f \<Rightarrow> (\<exists>event \<in> set try_events. f event = Throws))"

subsection \<open>Probe failure and the progress callback\<close>

definition probe_failed :: "'a http_outcome \<Rightarrow> bool" where
  \<comment> \<open>the request timed out or was refused, the status was not 200, or the body was malformed\<close>
  "probe_failed response = (case response of Json body \<Rightarrow> False | _ \<Rightarrow> True)"

definition never_throws :: "progress_callback \<Rightarrow> bool" where
  "never_throws cb = (\<forall>st msg p. emitProgress cb st msg p = Returns)"

subsection \<open>Invariants of the cache of a HybridAnalyzer\<close>

definition cache_keyed :: "cache \<Rightarrow> bool" where
  \<comment> \<open>every cached record is stored under its own domain\<close>
  "cache_keyed c = (\<forall>d a. c d = Some a \<longrightarrow> domain a = d)"

definition cache_scored :: "cache \<Rightarrow> bool" where
  \<comment> \<open>every cached record has its score between 0 and 100\<close>
  "cache_scored c = (\<forall>d a. c d = Some a \<longrightarrow> 0 \<le> traffic_score a \<and> traffic_score a \<le> 100)"

subsection \<open>The cache when a group of a batch starts\<close>

fun cache_at_group :: "(nat \<Rightarrow> call_env) \<Rightarrow> cache \<Rightarrow> string list \<Rightarrow> nat \<Rightarrow> cache" where
  \<comment> \<open>the cache of the analyzer when the group with this number starts: the initial
      cache, then what each earlier group has left\<close>
  "cache_at_group env c domains 0 = c"
| "cache_at_group env c domains (Suc g) =
     snd (run_group env (g * BATCH_SIZE) (take BATCH_SIZE (drop (g * BATCH_SIZE) domains))
            (cache_at_group env c domains g))"

section \<open>Example inputs\<close>

definition no_platform :: platform where
  "no_platform = \<lparr> parseInt = (\<lambda>s. None), newDate = (\<lambda>y m d. Invalid_Date) \<rparr>"

definition unreachable_env :: analyzer_env where
  \<comment> \<open>both requests fail, no progress callback is installed\<close>
  "unreachable_env =
     \<lparr> onProgress = None, pf = no_platform, dns_response = FetchThrows,
       archive_response = NotOk, threeMonthsAgo = 0, scoring_clock = 0,
       checked_clock = 0, draw = 1 / 2 \<rparr>"

definition throwing_env :: analyzer_env where
  \<comment> \<open>the progress callback throws on the first event and on no other\<close>
  "throwing_env =
     unreachable_env
       \<lparr> onProgress := Some (\<lambda>p. if step p = ''start'' then Throws else Returns) \<rparr>"

definition indexed_once :: probe_results where
  \<comment> \<open>a result page that holds the word \<open>result\<close> and no count; every other probe found nothing\<close>
  "indexed_once =
     \<lparr> archiveSnapshots = 0, archiveFrequency = 0, indexedPages = 1, mailScore = 0,
       hasRedirect = False, redirectUrl = None, isParked = False \<rparr>"

definition registered_env :: analyzer_env where
  \<comment> \<open>the DNS request finds an A record, the archive request fails\<close>
  "registered_env = unreachable_env \<lparr> dns_response := Json (DnsObject (Some [1])) \<rparr>"

definition one_mx_record :: probe_results where
  \<comment> \<open>the mail probe found one MX record (mail score 2); every other probe found nothing\<close>
  "one_mx_record = indexed_once \<lparr> indexedPages := 0, mailScore := 2 \<rparr>"

definition json_value_transform :: response_transform where
  \<comment> \<open>the transform on bodies that are JSON objects\<close>
  "json_value_transform body = OtherData"

definition quiet_call :: call_env where
  \<comment> \<open>a call whose DNS request finds no record\<close>
  "quiet_call =
     \<lparr> clock_now = 0, draw_traffic = 1 / 2, instant_clock = 0,
       dns_reply = Json (DnsObject None), settled_at = 0,
       draw_archive = 0, draw_indexed = 0, draw_social = 0, draw_web = 0,
       final_clock = 0 \<rparr>"

definition reversed_settling :: "nat \<Rightarrow> call_env" where
  \<comment> \<open>in every group the DNS request of a later call settles before that of an earlier
      one; the call at position \<open>k\<close> finishes at the instant \<open>k\<close>\<close>
  "reversed_settling k = quiet_call \<lparr> settled_at := 10 - k, final_clock := int k \<rparr>"

definition active_call :: call_env where
  \<comment> \<open>the same call when the DNS request finds an A record\<close>
  "active_call = quiet_call \<lparr> dns_reply := Json (DnsObject (Some [1])) \<rparr>"

section \<open>String primitives against their library counterparts\<close>

lemma str_includes_sublist: "str_includes s sub = sublist sub s"
  by (induction s) (auto simp: sublist_Cons_right)

lemma endsWith_suffix: "endsWith s t = suffix t s"
proof
  assume "endsWith s t"
  then have "s = take (length s - length t) s @ t"
    by (metis append_take_drop_id endsWith_def)
  then show "suffix t s" by (metis suffixI)
next
  assume "suffix t s"
  then obtain zs where "s = zs @ t" by (auto simp: suffix_def)
  then show "endsWith s t" by (simp add: endsWith_def)
qed

lemma split_on_nonempty: "split_on c s \<noteq> []"
  by (induction s) (auto split: list.splits)

lemma length_split_on: "length (split_on c s) = Suc (count_list s c)"
  by (induction s) (auto split: list.splits simp: split_on_nonempty)

section \<open>The heuristic lexical scorer\<close>

lemma short_no_year: "length s < 4 \<Longrightarrow> \<not> has_year_pattern s"
  by (auto simp: has_year_pattern_def dest!: sublist_length_le)

lemma year_pattern_Cons:
  "has_year_pattern (a # b # c # d # rest) \<longleftrightarrow>
     (is_digit a \<and> is_digit b \<and> is_digit c \<and> is_digit d) \<or> has_year_pattern (b # c # d # rest)"
  (is "?L \<longleftrightarrow> ?A \<or> ?B")
proof
  assume ?L
  then obtain ds where ds: "length ds = 4" "list_all is_digit ds" "sublist ds (a # b # c # d # rest)"
    by (auto simp: has_year_pattern_def)
  from ds(3) consider "prefix ds (a # b # c # d # rest)" | "sublist ds (b # c # d # rest)"
    by (auto simp: sublist_Cons_right)
  then show "?A \<or> ?B"
  proof cases
    case 1
    then have "ds = take 4 (a # b # c # d # rest)"
      using ds(1) by (metis append_eq_conv_conj prefix_def)
    then have "ds = [a, b, c, d]" by simp
    with ds(2) show ?thesis by simp
  next
    case 2
    with ds show ?thesis by (auto simp: has_year_pattern_def)
  qed
next
  assume "?A \<or> ?B"
  then show ?L
  proof
    assume ?A
    then have "length [a,b,c,d] = 4 \<and> list_all is_digit [a,b,c,d] \<and> sublist [a,b,c,d] (a # b # c # d # rest)"
      by (simp add: sublist_Cons_right)
    then show ?L unfolding has_year_pattern_def by blast
  next
    assume ?B
    then show ?L by (auto simp: has_year_pattern_def sublist_Cons_right)
  qed
qed

lemma test_4digits_year: "test_4digits s = has_year_pattern s"
  by (induction s rule: test_4digits.induct) (simp_all add: year_pattern_Cons short_no_year)

lemma known_tld_code: "list_ex (\<lambda>tld. endsWith d tld) KNOWN_TLDS = has_known_tld d"
  by (simp add: has_known_tld_def list_ex_iff endsWith_suffix)

lemma split_levels: "(length (split_on CHR ''.'' d) > 2) = (subdomain_levels d > 1)"
  by (simp add: length_split_on subdomain_levels_def) 

lemma estimateScore_spec: "estimateScore d = lexical_score_spec d"
  unfolding estimateScore_def lexical_score_spec_def Let_def
    test_4digits_year known_tld_code split_levels str_includes_sublist
  by simp

lemma estimateScore_bounds: "0 \<le> estimateScore d \<and> estimateScore d \<le> 55"
  unfolding estimateScore_def Let_def by simp

text \<open>
  C7. The lexical scorer reads nothing but the domain name. For every name it returns the
  sum, clamped to the range 0 to 100, of: 10 if the name contains four digits in a row,
  20 if it ends with a TLD of the allow-list, 15 if it has fewer than 15 characters,
  minus 10 if it has more than one level below the top-level label (more than two labels
  between dots), and 5 for each of the keywords shop and blog. For the name
  myshop2024.com the year pattern, the TLD, the length and the shop keyword count, the
  other two do not, and the score is 10 + 20 + 15 + 5 = 50.
\<close>

theorem lexical_scorer:
  "estimateScore d = lexical_score_spec d
   \<and> 0 \<le> estimateScore d \<and> estimateScore d \<le> 100
   \<and> test_4digits ''myshop2024.com''
   \<and> list_ex (\<lambda>tld. endsWith ''myshop2024.com'' tld) KNOWN_TLDS
   \<and> length ''myshop2024.com'' < 15
   \<and> \<not> length (split_on CHR ''.'' ''myshop2024.com'') > 2
   \<and> str_includes ''myshop2024.com'' ''shop''
   \<and> \<not> str_includes ''myshop2024.com'' ''blog''
   \<and> estimateScore ''myshop2024.com'' = 10 + 20 + 15 + 5"
proof -
  have "estimateScore ''myshop2024.com'' = 50"
    by (simp add: estimateScore_def KNOWN_TLDS_def endsWith_def is_digit_def)
  moreover have "test_4digits ''myshop2024.com''" by (simp add: is_digit_def)
  moreover have "list_ex (\<lambda>tld. endsWith ''myshop2024.com'' tld) KNOWN_TLDS"
    by (simp add: KNOWN_TLDS_def endsWith_def)
  moreover have "\<not> length (split_on CHR ''.'' ''myshop2024.com'') > 2" by simp
  moreover have "str_includes ''myshop2024.com'' ''shop''" by simp
  moreover have "\<not> str_includes ''myshop2024.com'' ''blog''" by simp
  ultimately show ?thesis
    using estimateScore_spec [of d] estimateScore_bounds [of d] by simp
qed

section \<open>The instant analysis\<close>

text \<open>
  C10. For every domain, draw and clock, the instant analysis returns the status
  available and the network fields at their defaults: no archive snapshots, indexed
  pages, social mentions or web presence, mail score 0, no redirect, no redirect URL,
  not parked. Only the domain, the score, the estimated traffic and the time of the
  check depend on the input.
\<close>

theorem instant_record:
  "instant_analyze d r t =
     \<lparr> traffic_score = estimateScore d,
       estimated_traffic = instant_estimateTraffic (real_of_int (estimateScore d)) r,
       archive_snapshots = 0,
       last_checked = t,
       status = ''available'',
       domain = d,
       indexed_pages = 0,
       social_mentions = 0,
       web_presence = 0,
       mail_score = 0,
       has_redirect = False,
       redirect_url = None,
       is_parked = False \<rparr>"
  by (simp add: instant_analyze_def Let_def)

section \<open>The traffic estimators\<close>

lemma random_below_range:
  assumes "unit_draw r" "0 < n"
  shows "0 \<le> random_below r n \<and> random_below r n \<le> n - 1"
proof -
  have "0 \<le> r * real_of_int n" using assms by (simp add: unit_draw_def)
  moreover have "r * real_of_int n < real_of_int n" using assms by (simp add: unit_draw_def)
  ultimately show ?thesis unfolding random_below_def by (simp add: floor_less_iff)
qed

lemma estimators_agree: "instant_estimateTraffic s r = estimateTraffic s r"
  by (simp add: instant_estimateTraffic_def estimateTraffic_def)

lemma estimateTraffic_bucket:
  "estimateTraffic s r = (if s < 10 then 0 else fst (spec_bucket s) + random_below r (snd (spec_bucket s) + 1))"
  by (simp add: estimateTraffic_def spec_bucket_def)

lemma spec_bucket_jitter: "0 \<le> snd (spec_bucket s)"
  by (simp add: spec_bucket_def)

lemma spec_bucket_low: "s < 10 \<Longrightarrow> spec_bucket s = (0, 0)"
  by (simp add: spec_bucket_def)

lemma comprehensive_estimate_table:
  assumes "unit_draw r"
  shows "(80 < s \<longrightarrow> comprehensive_estimate s r \<in> {5000..19999})
     \<and> (60 < s \<and> s \<le> 80 \<longrightarrow> comprehensive_estimate s r \<in> {1000..4999})
     \<and> (40 < s \<and> s \<le> 60 \<longrightarrow> comprehensive_estimate s r \<in> {100..999})
     \<and> (20 < s \<and> s \<le> 40 \<longrightarrow> comprehensive_estimate s r \<in> {10..99})
     \<and> (s \<le> 20 \<longrightarrow> comprehensive_estimate s r \<in> {0..9})"
  using random_below_range [OF assms, of 15000] random_below_range [OF assms, of 4000]
    random_below_range [OF assms, of 900] random_below_range [OF assms, of 90]
    random_below_range [OF assms, of 10]
  by (simp add: comprehensive_estimate_def)

text \<open>
  C4, as amended. For every score and every draw, the two estimators of the TypeScript
  analyzers (\<open>TrafficAnalyzer.estimateTraffic\<close> and
  \<open>InstantTrafficAnalyzer.estimateTraffic\<close>) agree and return the base of the score's
  bucket plus a jitter within the bucket's range, per the table of the specification
  (\<open>spec_bucket\<close>); below 10 the result is exactly 0. The estimator inlined in
  \<open>calculate_comprehensive_traffic_score\<close> follows a table of its own: above 80 it
  returns 5000 to 19999, above 60 it returns 1000 to 4999, above 40 it returns 100 to
  999, above 20 it returns 10 to 99, and 0 to 9 otherwise.
\<close>

theorem estimator_table:
  assumes "unit_draw r"
  shows "instant_estimateTraffic s r = estimateTraffic s r
     \<and> (\<exists>j \<in> {0 .. snd (spec_bucket s)}. estimateTraffic s r = fst (spec_bucket s) + j)
     \<and> (80 < s \<longrightarrow> comprehensive_estimate s r \<in> {5000..19999})
     \<and> (60 < s \<and> s \<le> 80 \<longrightarrow> comprehensive_estimate s r \<in> {1000..4999})
     \<and> (40 < s \<and> s \<le> 60 \<longrightarrow> comprehensive_estimate s r \<in> {100..999})
     \<and> (20 < s \<and> s \<le> 40 \<longrightarrow> comprehensive_estimate s r \<in> {10..99})
     \<and> (s \<le> 20 \<longrightarrow> comprehensive_estimate s r \<in> {0..9})"
proof -
  have "\<exists>j \<in> {0 .. snd (spec_bucket s)}. estimateTraffic s r = fst (spec_bucket s) + j"
  proof (cases "s < 10")
    case True
    then show ?thesis by (simp add: estimateTraffic_bucket spec_bucket_low)
  next
    case False
    have "0 < snd (spec_bucket s) + 1" using spec_bucket_jitter [of s] by simp
    from random_below_range [OF assms this] False show ?thesis
      by (simp add: estimateTraffic_bucket)
  qed
  then show ?thesis
    using estimators_agree [of s r] comprehensive_estimate_table [OF assms, of s] by simp
qed

theorem estimator_table_witness:
  "unit_draw (1 / 2)
   \<and> instant_estimateTraffic 75 (1 / 2) = estimateTraffic 75 (1 / 2)
   \<and> spec_bucket 75 = (5000, 4999)
   \<and> estimateTraffic 75 (1 / 2) = 5000 + 2500
   \<and> comprehensive_estimate 75 (1 / 2) \<in> {1000..4999}"
  using estimator_table [of "1 / 2" 75]
  by (simp add: unit_draw_def spec_bucket_def estimateTraffic_def random_below_def)

text \<open>
  The statement of the specification fails for the third estimator: at the score 90 the table asks for
  15000 or more and the detector can return 5000; at the score 5 the table asks for 0
  and the detector can return 5.
\<close>

theorem detector_estimator_counterexample:
  "unit_draw 0 \<and> spec_bucket 90 = (15000, 4999) \<and> comprehensive_estimate 90 0 = 5000
   \<and> unit_draw (1 / 2) \<and> spec_bucket 5 = (0, 0) \<and> comprehensive_estimate 5 (1 / 2) = 5"
  by (simp add: unit_draw_def spec_bucket_def comprehensive_estimate_def random_below_def)

section \<open>The range of the traffic score\<close>

lemma Math_round_nonneg: "0 \<le> x \<Longrightarrow> 0 \<le> Math_round x"
  by (simp add: Math_round_def)

lemma Math_round_le: "x \<le> real_of_int n \<Longrightarrow> Math_round x \<le> n"
  unfolding Math_round_def by (simp add: floor_le_iff)

lemma recency_sum_nonneg:
  assumes "0 \<le> (base::real)"
  shows "0 \<le> (case seen of
                 Some (Date t) \<Rightarrow>
                   (let monthsAgo = real_of_int (now - t) / (1000 * 60 * 60 * 24 * 30) in
                    if monthsAgo \<le> 1 then base + 10
                    else if monthsAgo \<le> 3 then base + 5
                    else if monthsAgo \<le> 6 then base + 2
                    else base)
               | _ \<Rightarrow> base)"
  using assms by (simp add: Let_def split: option.split date.split)

lemma calculateTrafficScore_range:
  assumes "0 \<le> recent" "0 \<le> totalSnapshots"
  shows "0 \<le> calculateTrafficScore recent totalSnapshots website seen now
       \<and> calculateTrafficScore recent totalSnapshots website seen now \<le> 100"
proof -
  have "0 \<le> min (recent * 40) 40 + min (totalSnapshots * 40) 40" using assms by simp
  then have "0 \<le> (if website then 0 + min (recent * 40) 40 + min (totalSnapshots * 40) 40 + 10
                   else 0 + min (recent * 40) 40 + min (totalSnapshots * 40) 40)" by simp
  from recency_sum_nonneg [OF this] show ?thesis
    unfolding calculateTrafficScore_def Let_def
    by (simp add: Math_round_nonneg)
qed

lemma checkArchiveHistory_counts:
  "0 \<le> snapshots (checkArchiveHistory p t response)
   \<and> 0 \<le> recentSnapshots (checkArchiveHistory p t response)"
  by (simp add: checkArchiveHistory_def no_history_def Let_def
        split: http_outcome.split option.split)

lemma analyzeDomain_try_range:
  assumes "analyzeDomain_try e = Some result"
  shows "0 \<le> traffic_score result \<and> traffic_score result \<le> 100"
proof -
  let ?h = "checkArchiveHistory (pf e) (threeMonthsAgo e) (archive_response e)"
  have "traffic_score result =
          calculateTrafficScore (real_of_int (recentSnapshots ?h)) (real_of_int (snapshots ?h))
            (hasWebsite (checkDNS (dns_response e))) (lastSeen ?h) (scoring_clock e)"
    using assms by (auto simp: analyzeDomain_try_def Let_def split: if_splits)
  then show ?thesis
    using checkArchiveHistory_counts [of "pf e" "threeMonthsAgo e" "archive_response e"]
    by (simp add: calculateTrafficScore_range)
qed

lemma analyzeDomain_range:
  assumes "analyzeDomain e = Inr result"
  shows "0 \<le> traffic_score result \<and> traffic_score result \<le> 100"
proof (cases "analyzeDomain_try e")
  case None
  with assms show ?thesis by (auto simp: analyzeDomain_def split: if_splits)
next
  case (Some r)
  with assms have "r = result" by (simp add: analyzeDomain_def)
  with Some show ?thesis using analyzeDomain_try_range by simp
qed

lemma comprehensive_finalScore_range:
  assumes "0 \<le> archiveSnapshots p" "0 \<le> archiveFrequency p" "0 \<le> indexedPages p" "0 \<le> mailScore p"
  shows "0 \<le> comprehensive_finalScore p \<and> comprehensive_finalScore p \<le> 100"
  using assms unfolding comprehensive_finalScore_def Let_def by simp

lemma hybrid_fresh_range:
  "0 \<le> traffic_score (hybrid_fresh e d) \<and> traffic_score (hybrid_fresh e d) \<le> 83"
proof -
  let ?s = "real_of_int (estimateScore d)"
  have b: "0 \<le> ?s" "?s \<le> 55" using estimateScore_bounds [of d] by simp_all
  have "0 \<le> ?s * 1.5" "?s * 1.5 \<le> real_of_int 83" "0 \<le> ?s * 0.8" "?s * 0.8 \<le> real_of_int 83"
    using b by simp_all
  then show ?thesis
    by (simp add: hybrid_fresh_def instant_analyze_def Let_def Math_round_nonneg Math_round_le)
qed

lemma cache_hit_Some: "cache_hit c now d = Some a \<Longrightarrow> c d = Some a"
  by (auto simp: cache_hit_def split: option.splits if_splits)

lemma hybrid_analyze_scored:
  assumes "cache_scored c"
  shows "0 \<le> traffic_score (fst (hybrid_analyze e c d))
       \<and> traffic_score (fst (hybrid_analyze e c d)) \<le> 100
       \<and> cache_scored (snd (hybrid_analyze e c d))"
proof (cases "cache_hit c (clock_now e) d")
  case None
  then show ?thesis
    using assms hybrid_fresh_range [of e d]
    by (auto simp: hybrid_analyze_def Let_def cache_scored_def)
next
  case (Some a)
  then have "c d = Some a" by (rule cache_hit_Some)
  with assms Some show ?thesis by (auto simp: hybrid_analyze_def cache_scored_def)
qed

text \<open>
  On numbers that are not negative both aggregators stay between 0 and 100, and so does
  the score of every record of the three TypeScript analyzers.
\<close>

lemma score_range_on_numbers:
  "(0 \<le> recent \<and> 0 \<le> totalSnapshots \<longrightarrow>
      0 \<le> calculateTrafficScore recent totalSnapshots website seen now
      \<and> calculateTrafficScore recent totalSnapshots website seen now \<le> 100)
   \<and> (analyzeDomain e = Inr result \<longrightarrow> 0 \<le> traffic_score result \<and> traffic_score result \<le> 100)
   \<and> (0 \<le> archiveSnapshots p \<and> 0 \<le> archiveFrequency p \<and> 0 \<le> indexedPages p \<and> 0 \<le> mailScore p \<longrightarrow>
      0 \<le> res_traffic_score (calculate_comprehensive_traffic_score p r)
      \<and> res_traffic_score (calculate_comprehensive_traffic_score p r) \<le> 100)
   \<and> 0 \<le> traffic_score (instant_analyze d r' t)
   \<and> traffic_score (instant_analyze d r' t) \<le> 100
   \<and> (cache_scored c \<longrightarrow>
      0 \<le> traffic_score (fst (hybrid_analyze ce c d))
      \<and> traffic_score (fst (hybrid_analyze ce c d)) \<le> 100
      \<and> cache_scored (snd (hybrid_analyze ce c d)))"
proof -
  have "0 \<le> traffic_score (instant_analyze d r' t) \<and> traffic_score (instant_analyze d r' t) \<le> 100"
    using estimateScore_bounds [of d] by (simp add: instant_analyze_def Let_def)
  moreover have "0 \<le> archiveSnapshots p \<and> 0 \<le> archiveFrequency p \<and> 0 \<le> indexedPages p \<and> 0 \<le> mailScore p \<longrightarrow>
      0 \<le> res_traffic_score (calculate_comprehensive_traffic_score p r)
      \<and> res_traffic_score (calculate_comprehensive_traffic_score p r) \<le> 100"
    using comprehensive_finalScore_range [of p]
    by (simp add: calculate_comprehensive_traffic_score_def Let_def)
  ultimately show ?thesis
    using calculateTrafficScore_range [of recent totalSnapshots website seen now]
      analyzeDomain_range [of e result] hybrid_analyze_scored [of c ce d]
    by blast
qed

text \<open>
  On numbers the aggregation in JavaScript arithmetic is the aggregation on reals.
\<close>

lemma finalScore_js_agrees:
  "comprehensive_finalScore_js (Num (archiveSnapshots p)) (Num (archiveFrequency p))
      (Num (indexedPages p)) (Num (mailScore p)) (hasRedirect p) (isParked p)
   = Num (comprehensive_finalScore p)"
  by (simp add: comprehensive_finalScore_js_def comprehensive_finalScore_def
        num_plus_def num_times_def Math_min_def Let_def)

lemma finalScore_js_in_range:
  fixes p :: probe_results
  assumes "0 \<le> archiveSnapshots p" "0 \<le> archiveFrequency p" "0 \<le> indexedPages p" "0 \<le> mailScore p"
  shows "within_0_100 (comprehensive_finalScore_js (Num (archiveSnapshots p)) (Num (archiveFrequency p))
      (Num (indexedPages p)) (Num (mailScore p)) (hasRedirect p) (isParked p))"
  using comprehensive_finalScore_range [OF assms]
  by (simp add: finalScore_js_agrees within_0_100_def)

text \<open>
  The indexing probe on two result pages: a count with a comma, and the word without a
  count.
\<close>

lemma indexing_count_example:
  "checkIndexingStatus StringData (AxiosResponse 200 ''<div>About 1,234 results</div>'') = Num 1234"
  by (simp add: checkIndexingStatus_def match_about_at_def digit_or_comma_def is_digit_def
        parseInt10_def digit_value_def Let_def)

lemma indexing_word_example:
  "checkIndexingStatus StringData (AxiosResponse 200 ''<div>10 results</div>'') = Num 1"
  by (simp add: checkIndexingStatus_def match_about_at_def digit_or_comma_def is_digit_def
        parseInt10_def digit_value_def Let_def)

text \<open>
  C1. The score in the record of \<open>calculate_comprehensive_traffic_score\<close> is not always
  between 0 and 100. When the page that the indexing probe reads holds the text
  "About , results", the pattern captures a lone comma, \<open>parseInt\<close> of what is left
  once the comma is removed is \<open>NaN\<close>, and \<open>NaN\<close> passes through every \<open>Math.min\<close> of
  the aggregation, the last one included: the score stored is \<open>NaN\<close>, which is not a
  number between 0 and 100.
\<close>

theorem indexing_nan_score:
  "match_about ''About , results'' = Some '',''
   \<and> checkIndexingStatus StringData (AxiosResponse 200 ''About , results'') = NaN
   \<and> comprehensive_finalScore_js (Num 0) (Num 0)
        (checkIndexingStatus StringData (AxiosResponse 200 ''About , results'')) (Num 0) False False
      = NaN
   \<and> \<not> within_0_100 (comprehensive_finalScore_js (Num 0) (Num 0)
        (checkIndexingStatus StringData (AxiosResponse 200 ''About , results'')) (Num 0) False False)"
proof -
  have m: "match_about ''About , results'' = Some '',''"
    by (simp add: match_about_at_def digit_or_comma_def is_digit_def Let_def)
  have i: "checkIndexingStatus StringData (AxiosResponse 200 ''About , results'') = NaN"
    by (simp add: checkIndexingStatus_def match_about_at_def digit_or_comma_def is_digit_def
          parseInt10_def Let_def)
  have s: "comprehensive_finalScore_js (Num 0) (Num 0) NaN (Num 0) False False = NaN"
    by (simp add: comprehensive_finalScore_js_def num_plus_def num_times_def Math_min_def Let_def)
  show ?thesis
    unfolding i s using m by (simp add: within_0_100_def)
qed

section \<open>Rounding in the aggregators\<close>

text \<open>
  C3. The second aggregation scheme caps each sub-component and the sum, and does not
  round: when the indexing probe reports one page and every other probe reports nothing,
  the score stored in the record is 0.5, which is not an integer; rounding it would
  give 1.
\<close>

theorem comprehensive_score_fraction:
  "res_traffic_score (calculate_comprehensive_traffic_score indexed_once 0) = 1 / 2
   \<and> real_of_int (Math_round (1 / 2)) \<noteq> 1 / 2
   \<and> (1 / 2 :: real) \<notin> \<int>"
proof -
  have "frac (1 / 2 :: real) \<noteq> 0" by (simp add: frac_def)
  then have "(1 / 2 :: real) \<notin> \<int>" by simp
  then show ?thesis
    by (simp add: calculate_comprehensive_traffic_score_def comprehensive_finalScore_def
        indexed_once_def Math_round_def Let_def)
qed

section \<open>The orchestrator when probes fail\<close>

lemma emit_quiet: "never_throws cb \<Longrightarrow> emitProgress cb st msg p = Returns"
  by (simp add: never_throws_def)

lemma failed_dns: "probe_failed response \<Longrightarrow> checkDNS response = \<lparr> hasNameservers = False, hasWebsite = False \<rparr>"
  by (cases response) (simp_all add: probe_failed_def checkDNS_def)

lemma failed_archive: "probe_failed response \<Longrightarrow> checkArchiveHistory p t response = no_history"
  by (cases response) (simp_all add: probe_failed_def checkArchiveHistory_def)

lemma zero_score: "calculateTrafficScore 0 0 False None now = 0"
  by (simp add: calculateTrafficScore_def Math_round_def)

lemma zero_traffic: "estimateTraffic 0 r = 0"
  by (simp add: estimateTraffic_def)

lemma analyzeDomain_try_failed:
  assumes "probe_failed (dns_response e)" "probe_failed (archive_response e)" "never_throws (onProgress e)"
  shows "analyzeDomain_try e =
     Some \<lparr> traffic_score = 0, estimated_traffic = 0, archive_snapshots = 0,
            last_checked = checked_clock e, status = ''available'' \<rparr>"
  unfolding analyzeDomain_try_def
  by (simp add: emit_quiet [OF assms(3)] failed_dns [OF assms(1)] failed_archive [OF assms(2)]
        no_history_def zero_score zero_traffic)

lemma analyzeDomain_returns:
  assumes "never_throws (onProgress e)"
  shows "\<exists>result. analyzeDomain e = Inr result"
  by (cases "analyzeDomain_try e") (simp_all add: analyzeDomain_def emit_quiet [OF assms])

lemma analyzeDomain_try_status:
  assumes "analyzeDomain_try e = Some result"
  shows "status result = (if hasNameservers (checkDNS (dns_response e)) then ''registered'' else ''available'')"
  using assms by (auto simp: analyzeDomain_try_def Let_def split: if_splits)

text \<open>
  C2, as amended. When both probes of \<open>analyzeDomain\<close> fail (the request is rejected,
  the status is not 200 or the body is malformed) and the progress callback, if any,
  does not throw, \<open>analyzeDomain\<close> returns a complete record with score, estimated
  traffic and snapshot count 0 and with the status available, which is what the failed
  DNS probe's fallback gives. Whenever the callback does not throw, \<open>analyzeDomain\<close>
  returns a record. The status error is returned exactly when an exception leaves the
  \<open>try\<close> block, and then with the three numeric fields 0.
\<close>

theorem all_probes_fail:
  "(probe_failed (dns_response e) \<and> probe_failed (archive_response e) \<and> never_throws (onProgress e) \<longrightarrow>
      analyzeDomain e =
        Inr \<lparr> traffic_score = 0, estimated_traffic = 0, archive_snapshots = 0,
              last_checked = checked_clock e, status = ''available'' \<rparr>)
   \<and> (never_throws (onProgress e) \<longrightarrow> (\<exists>result. analyzeDomain e = Inr result))
   \<and> (analyzeDomain_try e = None
        \<and> emitProgress (onProgress e) ''error'' ''Analysis failed'' 100 = Returns \<longrightarrow>
      analyzeDomain e =
        Inr \<lparr> traffic_score = 0, estimated_traffic = 0, archive_snapshots = 0,
              last_checked = checked_clock e, status = ''error'' \<rparr>)
   \<and> (analyzeDomain e = Inr result \<and> status result = ''error'' \<longrightarrow> analyzeDomain_try e = None)"
proof -
  have "analyzeDomain e = Inr result \<and> status result = ''error'' \<longrightarrow> analyzeDomain_try e = None"
  proof (cases "analyzeDomain_try e")
    case None
    then show ?thesis by simp
  next
    case (Some r)
    then have "status r \<noteq> ''error''" using analyzeDomain_try_status [OF Some] by simp
    with Some show ?thesis by (auto simp: analyzeDomain_def)
  qed
  then show ?thesis
    using analyzeDomain_try_failed [of e] analyzeDomain_returns [of e]
    by (auto simp: analyzeDomain_def)
qed

lemma throwing_try: "analyzeDomain_try throwing_env = None"
  by (simp add: analyzeDomain_try_def throwing_env_def emitProgress_def)

theorem all_probes_fail_witness:
  "probe_failed (dns_response unreachable_env)
   \<and> probe_failed (archive_response unreachable_env)
   \<and> never_throws (onProgress unreachable_env)
   \<and> analyzeDomain unreachable_env =
       Inr \<lparr> traffic_score = 0, estimated_traffic = 0, archive_snapshots = 0,
             last_checked = 0, status = ''available'' \<rparr>
   \<and> analyzeDomain_try throwing_env = None
   \<and> emitProgress (onProgress throwing_env) ''error'' ''Analysis failed'' 100 = Returns
   \<and> analyzeDomain throwing_env =
       Inr \<lparr> traffic_score = 0, estimated_traffic = 0, archive_snapshots = 0,
             last_checked = 0, status = ''error'' \<rparr>"
proof -
  have a: "probe_failed (dns_response unreachable_env) \<and> probe_failed (archive_response unreachable_env)
        \<and> never_throws (onProgress unreachable_env)"
    by (simp add: unreachable_env_def probe_failed_def never_throws_def emitProgress_def)
  have b: "emitProgress (onProgress throwing_env) ''error'' ''Analysis failed'' 100 = Returns"
    by (simp add: throwing_env_def emitProgress_def)
  have c: "checked_clock unreachable_env = 0" "checked_clock throwing_env = 0"
    by (simp_all add: throwing_env_def unreachable_env_def)
  show ?thesis
    using all_probes_fail [of unreachable_env] all_probes_fail [of throwing_env] a b c throwing_try
    by simp
qed

text \<open>
  The statement of the specification fails on the status: with both requests failing and no callback
  installed, the record returned has the status available, not error.
\<close>

theorem all_probes_fail_counterexample:
  "probe_failed (dns_response unreachable_env)
   \<and> probe_failed (archive_response unreachable_env)
   \<and> onProgress unreachable_env = None
   \<and> analyzeDomain unreachable_env =
       Inr \<lparr> traffic_score = 0, estimated_traffic = 0, archive_snapshots = 0,
             last_checked = 0, status = ''available'' \<rparr>
   \<and> analyzeDomain unreachable_env \<noteq>
       Inr \<lparr> traffic_score = 0, estimated_traffic = 0, archive_snapshots = 0,
             last_checked = 0, status = ''error'' \<rparr>"
  by (simp add: analyzeDomain_def analyzeDomain_try_def unreachable_env_def emitProgress_def
        probe_failed_def checkDNS_def checkArchiveHistory_def no_history_def
        calculateTrafficScore_def estimateTraffic_def Math_round_def Let_def)

section \<open>Where the status comes from\<close>

lemma unreachable_try:
  "analyzeDomain_try unreachable_env =
     Some \<lparr> traffic_score = 0, estimated_traffic = 0, archive_snapshots = 0,
            last_checked = 0, status = ''available'' \<rparr>"
  by (simp add: analyzeDomain_try_def unreachable_env_def emitProgress_def
        checkDNS_def checkArchiveHistory_def no_history_def calculateTrafficScore_def
        estimateTraffic_def Math_round_def Let_def)

lemma try_escapes: "(analyzeDomain_try e = None) = exception_escapes (onProgress e)"
proof (cases "onProgress e")
  case None
  then show ?thesis
    by (simp add: analyzeDomain_try_def emitProgress_def exception_escapes_def Let_def)
next
  case (Some f)
  then show ?thesis
    by (simp add: analyzeDomain_try_def emitProgress_def exception_escapes_def try_events_def Let_def)
qed

lemma checkDNS_resolves: "hasNameservers (checkDNS response) = nameservers_resolve response"
proof (cases response)
  case (Json body)
  then show ?thesis
  proof (cases body)
    case DnsNull
    with Json show ?thesis by (simp add: checkDNS_def nameservers_resolve_def)
  next
    case (DnsObject answer)
    with Json show ?thesis by (cases answer) (simp_all add: checkDNS_def nameservers_resolve_def)
  qed
qed (simp_all add: checkDNS_def nameservers_resolve_def)

lemma hybrid_checkDNS_resolves: "hybrid_checkDNS response = nameservers_resolve response"
proof (cases response)
  case (Json body)
  then show ?thesis
  proof (cases body)
    case DnsNull
    with Json show ?thesis by (simp add: hybrid_checkDNS_def nameservers_resolve_def)
  next
    case (DnsObject answer)
    with Json show ?thesis by (cases answer) (simp_all add: hybrid_checkDNS_def nameservers_resolve_def)
  qed
qed (simp_all add: hybrid_checkDNS_def nameservers_resolve_def)

lemma analyzeDomain_status_exact:
  assumes "analyzeDomain e = Inr result"
  shows "status result =
     (if exception_escapes (onProgress e) then ''error''
      else if nameservers_resolve (dns_response e) then ''registered'' else ''available'')"
proof (cases "analyzeDomain_try e")
  case None
  then have "exception_escapes (onProgress e)" by (simp add: try_escapes)
  with None assms show ?thesis by (auto simp: analyzeDomain_def split: if_splits)
next
  case (Some r)
  then have n: "\<not> exception_escapes (onProgress e)" using try_escapes [of e] by simp
  from Some assms have "r = result" by (simp add: analyzeDomain_def)
  with analyzeDomain_try_status [OF Some] n show ?thesis by (simp add: checkDNS_resolves)
qed

lemma hybrid_miss:
  "cache_hit c (clock_now ce) d = None \<Longrightarrow> fst (hybrid_analyze ce c d) = hybrid_fresh ce d"
  by (simp add: hybrid_analyze_def Let_def)

lemma hybrid_hit:
  "cache_hit c (clock_now ce) d = Some cached \<Longrightarrow> fst (hybrid_analyze ce c d) = cached"
  by (simp add: hybrid_analyze_def)

lemma hybrid_fresh_status:
  "status (hybrid_fresh ce d) =
     (if nameservers_resolve (dns_reply ce) then ''registered'' else ''available'')"
  by (simp add: hybrid_fresh_def Let_def hybrid_checkDNS_resolves)

lemma empty_cache_miss: "cache_hit Map.empty now d = None"
  by (simp add: cache_hit_def)

text \<open>
  C5, as amended. The status of a record returned by \<open>TrafficAnalyzer.analyzeDomain\<close>
  is error when an exception leaves the \<open>try\<close> block (the progress callback throws on
  one of its events), and otherwise registered when the DNS answer lists a record and
  available when it does not or the request fails. \<open>InstantTrafficAnalyzer.analyze\<close>
  always gives available. \<open>HybridAnalyzer.analyze\<close> gives, on a cache miss, registered
  when the DNS answer lists a record and available otherwise, and on a cache hit the
  cached record unchanged. The update of \<open>lib/supabase.ts\<close> stores the status of the
  analysis, which for its new analyzer is the one just derived. The rows inserted by
  the import script and the scheduler script carry the status available, set by the
  script, whatever the probes found.
\<close>

theorem status_derivation:
  "(analyzeDomain e = Inr result \<longrightarrow>
      status result =
        (if exception_escapes (onProgress e) then ''error''
         else if nameservers_resolve (dns_response e) then ''registered'' else ''available''))
   \<and> status (instant_analyze d r t) = ''available''
   \<and> (cache_hit c (clock_now ce) d = None \<longrightarrow>
      status (fst (hybrid_analyze ce c d)) =
        (if nameservers_resolve (dns_reply ce) then ''registered'' else ''available''))
   \<and> (cache_hit c (clock_now ce) d = Some cached \<longrightarrow> fst (hybrid_analyze ce c d) = cached)
   \<and> status (client_update row analysis now) = status analysis
   \<and> status (client_update row (fst (hybrid_analyze ce Map.empty d)) now) =
        (if nameservers_resolve (dns_reply ce) then ''registered'' else ''available'')
   \<and> row_status (import_row d results now) = ''available''"
  using analyzeDomain_status_exact [of e result] hybrid_hit [of c ce d cached]
  by (simp add: instant_analyze_def Let_def hybrid_miss hybrid_fresh_status empty_cache_miss
        client_update_def import_row_def)

lemma unreachable_result:
  "analyzeDomain unreachable_env =
     Inr \<lparr> traffic_score = 0, estimated_traffic = 0, archive_snapshots = 0,
           last_checked = 0, status = ''available'' \<rparr>"
  by (simp add: analyzeDomain_def unreachable_try)

lemma registered_result:
  "analyzeDomain registered_env =
     Inr \<lparr> traffic_score = 10, estimated_traffic = 25, archive_snapshots = 0,
           last_checked = 0, status = ''registered'' \<rparr>"
  by (simp add: analyzeDomain_def analyzeDomain_try_def registered_env_def unreachable_env_def
        emitProgress_def checkDNS_def checkArchiveHistory_def no_history_def
        calculateTrafficScore_def estimateTraffic_def random_below_def Math_round_def Let_def)

lemma throwing_result:
  "analyzeDomain throwing_env =
     Inr \<lparr> traffic_score = 0, estimated_traffic = 0, archive_snapshots = 0,
           last_checked = 0, status = ''error'' \<rparr>"
  by (simp add: analyzeDomain_def throwing_try)
     (simp add: throwing_env_def unreachable_env_def emitProgress_def)

theorem status_derivation_witness:
  "analyzeDomain unreachable_env =
       Inr \<lparr> traffic_score = 0, estimated_traffic = 0, archive_snapshots = 0,
             last_checked = 0, status = ''available'' \<rparr>
   \<and> \<not> exception_escapes (onProgress unreachable_env)
   \<and> \<not> nameservers_resolve (dns_response unreachable_env)
   \<and> analyzeDomain registered_env =
       Inr \<lparr> traffic_score = 10, estimated_traffic = 25, archive_snapshots = 0,
             last_checked = 0, status = ''registered'' \<rparr>
   \<and> \<not> exception_escapes (onProgress registered_env)
   \<and> nameservers_resolve (dns_response registered_env)
   \<and> analyzeDomain throwing_env =
       Inr \<lparr> traffic_score = 0, estimated_traffic = 0, archive_snapshots = 0,
             last_checked = 0, status = ''error'' \<rparr>
   \<and> exception_escapes (onProgress throwing_env)
   \<and> cache_hit Map.empty (clock_now active_call) ''myshop2024.com'' = None
   \<and> nameservers_resolve (dns_reply active_call)
   \<and> status (fst (hybrid_analyze active_call Map.empty ''myshop2024.com'')) = ''registered''
   \<and> \<not> nameservers_resolve (dns_reply quiet_call)
   \<and> status (fst (hybrid_analyze quiet_call Map.empty ''myshop2024.com'')) = ''available''
   \<and> cache_hit [''myshop2024.com'' \<mapsto> hybrid_fresh active_call ''myshop2024.com'']
        (clock_now quiet_call) ''myshop2024.com'' = Some (hybrid_fresh active_call ''myshop2024.com'')
   \<and> fst (hybrid_analyze quiet_call
        [''myshop2024.com'' \<mapsto> hybrid_fresh active_call ''myshop2024.com''] ''myshop2024.com'')
       = hybrid_fresh active_call ''myshop2024.com''"
proof -
  have a: "\<not> exception_escapes (onProgress unreachable_env)"
      "\<not> exception_escapes (onProgress registered_env)"
      "exception_escapes (onProgress throwing_env)"
    by (simp_all add: exception_escapes_def unreachable_env_def registered_env_def throwing_env_def
          try_events_def)
  have b: "\<not> nameservers_resolve (dns_response unreachable_env)"
      "nameservers_resolve (dns_response registered_env)"
      "nameservers_resolve (dns_reply active_call)"
      "\<not> nameservers_resolve (dns_reply quiet_call)"
    by (simp_all add: nameservers_resolve_def unreachable_env_def registered_env_def
          active_call_def quiet_call_def)
  have c: "cache_hit [''myshop2024.com'' \<mapsto> hybrid_fresh active_call ''myshop2024.com'']
        (clock_now quiet_call) ''myshop2024.com'' = Some (hybrid_fresh active_call ''myshop2024.com'')"
    by (simp add: cache_hit_def hybrid_fresh_def Let_def quiet_call_def active_call_def CACHE_TTL_def)
  note u = status_derivation [where e = unreachable_env and ce = active_call and c = Map.empty
      and d = "''myshop2024.com''"]
  note q = status_derivation [where e = registered_env and ce = quiet_call
      and c = "[''myshop2024.com'' \<mapsto> hybrid_fresh active_call ''myshop2024.com'']"
      and d = "''myshop2024.com''" and cached = "hybrid_fresh active_call ''myshop2024.com''"]
  note h = status_derivation [where e = throwing_env and ce = quiet_call and c = Map.empty
      and d = "''myshop2024.com''"]
  have s1: "status (fst (hybrid_analyze active_call Map.empty ''myshop2024.com'')) = ''registered''"
    using u [THEN conjunct2, THEN conjunct2, THEN conjunct1] b(3) by (simp add: empty_cache_miss)
  have s2: "status (fst (hybrid_analyze quiet_call Map.empty ''myshop2024.com'')) = ''available''"
    using h [THEN conjunct2, THEN conjunct2, THEN conjunct1] b(4) by (simp add: empty_cache_miss)
  have s3: "fst (hybrid_analyze quiet_call
        [''myshop2024.com'' \<mapsto> hybrid_fresh active_call ''myshop2024.com''] ''myshop2024.com'')
       = hybrid_fresh active_call ''myshop2024.com''"
    using q [THEN conjunct2, THEN conjunct2, THEN conjunct2, THEN conjunct1] c by blast
  show ?thesis
    using unreachable_result registered_result throwing_result a b c s1 s2 s3
    by (simp add: empty_cache_miss)
qed

text \<open>
  The statement of the specification fails for the rows the scripts insert: a domain
  for which the mail probe found an MX record, so that its name servers resolve, is
  stored with the status available, as is a domain for which no probe found anything.
\<close>

theorem import_status_counterexample:
  "checkDnsMailConfiguration (Records [()]) LookupFails LookupFails = mailScore one_mx_record
   \<and> res_mail_score (calculate_comprehensive_traffic_score one_mx_record 0) = 2
   \<and> row_status (import_row ''example.com'' (calculate_comprehensive_traffic_score one_mx_record 0) 0)
       = ''available''
   \<and> row_status (import_row ''example.com'' (calculate_comprehensive_traffic_score indexed_once 0) 0)
       = ''available''
   \<and> ''available'' \<noteq> ''registered''"
  by (simp add: checkDnsMailConfiguration_def one_mx_record_def indexed_once_def import_row_def
        calculate_comprehensive_traffic_score_def Let_def)

section \<open>Where the estimated traffic comes from\<close>

lemma estimateTraffic_nonneg:
  assumes "unit_draw r"
  shows "0 \<le> estimateTraffic s r"
proof (cases "s < 10")
  case True
  then show ?thesis by (simp add: estimateTraffic_bucket)
next
  case False
  have "0 < snd (spec_bucket s) + 1" using spec_bucket_jitter [of s] by simp
  from random_below_range [OF assms this] have "0 \<le> random_below r (snd (spec_bucket s) + 1)" by simp
  moreover have "0 \<le> fst (spec_bucket s)" by (simp add: spec_bucket_def)
  ultimately show ?thesis using False by (simp add: estimateTraffic_bucket)
qed

lemma comprehensive_estimate_nonneg:
  assumes "unit_draw r"
  shows "0 \<le> comprehensive_estimate s r"
  using random_below_range [OF assms, of 15000] random_below_range [OF assms, of 4000]
    random_below_range [OF assms, of 900] random_below_range [OF assms, of 90]
    random_below_range [OF assms, of 10]
  by (simp add: comprehensive_estimate_def)

lemma analyzeDomain_estimate:
  assumes "analyzeDomain e = Inr result"
  shows "estimated_traffic result = estimateTraffic (real_of_int (traffic_score result)) (draw e)"
proof (cases "analyzeDomain_try e")
  case None
  with assms show ?thesis by (auto simp: analyzeDomain_def zero_traffic split: if_splits)
next
  case (Some r)
  with assms have "r = result" by (simp add: analyzeDomain_def)
  with Some show ?thesis by (auto simp: analyzeDomain_try_def Let_def split: if_splits)
qed

lemma hybrid_fresh_estimate:
  "estimated_traffic (hybrid_fresh ce d) =
     instant_estimateTraffic (real_of_int (estimateScore d)) (draw_traffic ce)"
  by (simp add: hybrid_fresh_def instant_analyze_def Let_def)

text \<open>
  C6, as amended. In every variant the estimated traffic is computed from a score and
  one jitter draw, never from a raw probe value, and it is not negative. In the records
  of \<open>TrafficAnalyzer.analyzeDomain\<close>, \<open>InstantTrafficAnalyzer.analyze\<close> and
  \<open>calculate_comprehensive_traffic_score\<close> it is the estimator applied to the score of
  that same record. In a record that \<open>HybridAnalyzer.analyze\<close> computes it is the
  estimator applied to the lexical score of the domain, which is the score before the
  DNS adjustment and not the score stored in the record.
\<close>

theorem estimated_traffic_source:
  "(analyzeDomain e = Inr result \<longrightarrow>
      estimated_traffic result = estimateTraffic (real_of_int (traffic_score result)) (draw e)
      \<and> (unit_draw (draw e) \<longrightarrow> 0 \<le> estimated_traffic result))
   \<and> estimated_traffic (instant_analyze d r t) =
       instant_estimateTraffic (real_of_int (traffic_score (instant_analyze d r t))) r
   \<and> (unit_draw r \<longrightarrow> 0 \<le> estimated_traffic (instant_analyze d r t))
   \<and> res_estimated_traffic (calculate_comprehensive_traffic_score p r) =
       comprehensive_estimate (res_traffic_score (calculate_comprehensive_traffic_score p r)) r
   \<and> (unit_draw r \<longrightarrow> 0 \<le> res_estimated_traffic (calculate_comprehensive_traffic_score p r))
   \<and> estimated_traffic (hybrid_fresh ce d) =
       instant_estimateTraffic (real_of_int (estimateScore d)) (draw_traffic ce)
   \<and> (unit_draw (draw_traffic ce) \<longrightarrow> 0 \<le> estimated_traffic (hybrid_fresh ce d))"
  using analyzeDomain_estimate [of e result] estimateTraffic_nonneg [of "draw e"]
    estimateTraffic_nonneg [of r] estimateTraffic_nonneg [of "draw_traffic ce"]
    comprehensive_estimate_nonneg [of r]
  by (simp add: hybrid_fresh_estimate estimators_agree instant_analyze_def
        calculate_comprehensive_traffic_score_def Let_def)

theorem estimated_traffic_source_witness:
  "analyzeDomain unreachable_env =
       Inr \<lparr> traffic_score = 0, estimated_traffic = 0, archive_snapshots = 0,
             last_checked = 0, status = ''available'' \<rparr>
   \<and> unit_draw (draw unreachable_env)
   \<and> unit_draw (1 / 2)
   \<and> unit_draw (draw_traffic active_call)
   \<and> estimated_traffic (instant_analyze ''myshop2024.com'' (1 / 2) 0) =
       instant_estimateTraffic 50 (1 / 2)
   \<and> 0 \<le> estimated_traffic (instant_analyze ''myshop2024.com'' (1 / 2) 0)
   \<and> 0 \<le> res_estimated_traffic (calculate_comprehensive_traffic_score indexed_once (1 / 2))
   \<and> estimated_traffic (hybrid_fresh active_call ''myshop2024.com'') = 1500"
proof -
  have a: "analyzeDomain unreachable_env =
       Inr \<lparr> traffic_score = 0, estimated_traffic = 0, archive_snapshots = 0,
             last_checked = 0, status = ''available'' \<rparr>"
    by (simp add: analyzeDomain_def unreachable_try)
  have b: "unit_draw (draw unreachable_env)" "unit_draw (1 / 2)" "unit_draw (draw_traffic active_call)"
    by (simp_all add: unit_draw_def unreachable_env_def active_call_def quiet_call_def)
  have c: "estimateScore ''myshop2024.com'' = 50"
    by (simp add: estimateScore_def KNOWN_TLDS_def endsWith_def is_digit_def)
  have d: "instant_estimateTraffic 50 (draw_traffic active_call) = 1500"
    by (simp add: instant_estimateTraffic_def random_below_def active_call_def quiet_call_def)
  have e: "traffic_score (instant_analyze ''myshop2024.com'' (1 / 2) 0) = 50"
    by (simp add: instant_analyze_def Let_def c)
  show ?thesis
    using estimated_traffic_source [where e = unreachable_env and r = "1 / 2" and ce = active_call
        and d = "''myshop2024.com''" and t = 0 and p = indexed_once
        and result = "\<lparr> traffic_score = 0, estimated_traffic = 0, archive_snapshots = 0,
             last_checked = 0, status = ''available'' \<rparr>"] a b c d e
    by simp
qed

text \<open>
  The statement of the specification fails for \<open>HybridAnalyzer.analyze\<close>: two analyses with the same
  final score 8 and the same jitter draw have the estimated traffic 0 and 25, and the
  estimator applied to the final score 8 gives 0.
\<close>

theorem hybrid_estimate_counterexample:
  "traffic_score (fst (hybrid_analyze active_call Map.empty ''myshopdomainname.xyz'')) = 8
   \<and> traffic_score (fst (hybrid_analyze quiet_call Map.empty ''year2024domainname.xyz'')) = 8
   \<and> draw_traffic active_call = draw_traffic quiet_call
   \<and> estimated_traffic (fst (hybrid_analyze active_call Map.empty ''myshopdomainname.xyz'')) = 0
   \<and> estimated_traffic (fst (hybrid_analyze quiet_call Map.empty ''year2024domainname.xyz'')) = 25
   \<and> instant_estimateTraffic 8 (draw_traffic quiet_call) = 0"
proof -
  have a: "estimateScore ''myshopdomainname.xyz'' = 5"
    by (simp add: estimateScore_def KNOWN_TLDS_def endsWith_def is_digit_def)
  have b: "estimateScore ''year2024domainname.xyz'' = 10"
    by (simp add: estimateScore_def KNOWN_TLDS_def endsWith_def is_digit_def)
  show ?thesis
    by (simp add: hybrid_analyze_def cache_hit_def hybrid_fresh_def instant_analyze_def Let_def
          a b active_call_def quiet_call_def hybrid_checkDNS_def Math_round_def
          instant_estimateTraffic_def random_below_def)
qed

section \<open>Parking detection\<close>

lemma sublist_map_iff:
  "sublist xs (map f ys) \<longleftrightarrow> (\<exists>part. sublist part ys \<and> map f part = xs)"
proof
  assume "sublist xs (map f ys)"
  then obtain ps ss where e: "map f ys = ps @ xs @ ss" by (auto simp: sublist_def)
  let ?part = "take (length xs) (drop (length ps) ys)"
  have "map f ?part = take (length xs) (drop (length ps) (map f ys))"
    by (simp add: take_map drop_map)
  also have "\<dots> = xs" unfolding e by simp
  finally have m: "map f ?part = xs" .
  have "ys = take (length ps) ys @ ?part @ drop (length xs) (drop (length ps) ys)"
    by (simp only: append_take_drop_id)
  then have "sublist ?part ys" unfolding sublist_def by blast
  with m show "\<exists>part. sublist part ys \<and> map f part = xs" by blast
next
  assume "\<exists>part. sublist part ys \<and> map f part = xs"
  then obtain part ps ss where "ys = ps @ part @ ss" "map f part = xs"
    by (auto simp: sublist_def)
  then have "map f ys = map f ps @ xs @ map f ss" by simp
  then show "sublist xs (map f ys)" unfolding sublist_def by blast
qed

lemma zip_swap_mem: "(a, b) \<in> set (zip xs ys) \<Longrightarrow> (b, a) \<in> set (zip ys xs)"
  by (auto simp: set_zip)

lemma letter_pairs_all: "list_all (\<lambda>(l, u). lower_char l = l \<and> lower_char u = l) letter_pairs"
  by code_simp

lemma letter_pairs_small: "(l, u) \<in> set letter_pairs \<Longrightarrow> lower_char l = l \<and> lower_char u = l"
  using letter_pairs_all unfolding list_all_iff by blast

lemma letter_pairs_distinct: "distinct (map fst letter_pairs)"
  by code_simp

lemma lower_char_cases: "lower_char a = a \<or> (lower_char a, a) \<in> set letter_pairs"
proof (cases "map_of (zip ''ABCDEFGHIJKLMNOPQRSTUVWXYZ'' ''abcdefghijklmnopqrstuvwxyz'') a")
  case None
  then show ?thesis by (simp add: lower_char_def)
next
  case (Some l)
  then have "(a, l) \<in> set (zip ''ABCDEFGHIJKLMNOPQRSTUVWXYZ'' ''abcdefghijklmnopqrstuvwxyz'')"
    by (rule map_of_SomeD)
  then have "(l, a) \<in> set letter_pairs" unfolding letter_pairs_def by (rule zip_swap_mem)
  moreover have "lower_char a = l" using Some by (simp only: lower_char_def option.case)
  ultimately show ?thesis by simp
qed

lemma lower_char_eq_iff: "(lower_char a = lower_char b) = same_letter a b"
proof
  assume e: "lower_char a = lower_char b"
  from lower_char_cases [of a] lower_char_cases [of b] show "same_letter a b"
  proof (elim disjE)
    assume "lower_char a = a" "lower_char b = b"
    with e show ?thesis by (simp add: same_letter_def)
  next
    assume "lower_char a = a" "(lower_char b, b) \<in> set letter_pairs"
    with e show ?thesis by (simp add: same_letter_def)
  next
    assume "(lower_char a, a) \<in> set letter_pairs" "lower_char b = b"
    with e show ?thesis by (simp add: same_letter_def)
  next
    assume p: "(lower_char a, a) \<in> set letter_pairs" "(lower_char b, b) \<in> set letter_pairs"
    have "map_of letter_pairs (lower_char a) = Some a"
      using letter_pairs_distinct p(1) by (rule map_of_is_SomeI)
    moreover have "map_of letter_pairs (lower_char a) = Some b"
      unfolding e using letter_pairs_distinct p(2) by (rule map_of_is_SomeI)
    ultimately have "a = b" by simp
    then show ?thesis by (simp add: same_letter_def)
  qed
next
  assume "same_letter a b"
  then consider "a = b" | "(a, b) \<in> set letter_pairs" | "(b, a) \<in> set letter_pairs"
    unfolding same_letter_def by blast
  then show "lower_char a = lower_char b"
  proof cases
    case 1 then show ?thesis by simp
  next
    case 2 from letter_pairs_small [OF this] show ?thesis by simp
  next
    case 3 from letter_pairs_small [OF this] show ?thesis by simp
  qed
qed

lemma lowered_equal_iff: "(toLowerCase xs = toLowerCase ys) = list_all2 same_letter xs ys"
proof (induction xs arbitrary: ys)
  case Nil
  then show ?case by (simp add: toLowerCase_def)
next
  case (Cons x xs)
  then show ?case by (cases ys) (auto simp: toLowerCase_def lower_char_eq_iff)
qed

lemma parkingSigns_lower: "sign \<in> set parkingSigns \<Longrightarrow> toLowerCase sign = sign"
  by (auto simp: parkingSigns_def toLowerCase_def lower_char_def)

lemma includes_lowered:
  assumes "toLowerCase sign = sign"
  shows "str_includes (toLowerCase body) sign = contains_ignoring_case body sign"
proof -
  have "str_includes (toLowerCase body) sign = (\<exists>part. sublist part body \<and> toLowerCase part = sign)"
    unfolding str_includes_sublist toLowerCase_def by (rule sublist_map_iff)
  also have "\<dots> = (\<exists>part. sublist part body \<and> toLowerCase part = toLowerCase sign)"
    by (simp add: assms)
  finally show ?thesis by (simp add: contains_ignoring_case_def lowered_equal_iff)
qed

lemma parked_200:
  assumes "transform body = StringData page"
  shows "checkForParkedDomainSigns transform (AxiosResponse 200 body) =
     (\<exists>sign \<in> set parkingSigns. contains_ignoring_case page sign)"
  using assms by (simp add: checkForParkedDomainSigns_def list_ex_iff includes_lowered parkingSigns_lower)

lemma for_sale_any_case:
  assumes "list_all2 same_letter phrase ''This domain is for sale''"
  shows "contains_ignoring_case (before @ phrase @ after) ''domain is for sale''"
proof -
  have "list_all2 same_letter (drop 5 phrase) (drop 5 ''This domain is for sale'')"
    using assms by (rule list_all2_dropI)
  then have "list_all2 same_letter (drop 5 phrase) ''domain is for sale''" by simp
  moreover have "sublist (drop 5 phrase) (before @ phrase @ after)"
  proof -
    have "before @ phrase @ after = (before @ take 5 phrase) @ drop 5 phrase @ after" by simp
    then show ?thesis unfolding sublist_def by blast
  qed
  ultimately show ?thesis unfolding contains_ignoring_case_def by blast
qed

text \<open>
  C8, as amended. On a response with status 200 whose data is a string (the body, or
  the string that a JSON string literal decodes to), parking detection returns true
  exactly when the string contains one of the phrases of the fixed list, whatever the
  letter case: true for every such string, in particular for one that contains "This
  domain is for sale" in any letter case, and false for every string that contains
  none. It returns false when the data is another JSON value, when the status is not
  200 and when the request fails, whatever the body contains.
\<close>

theorem parking_detection:
  "(transform body = StringData page \<longrightarrow>
      checkForParkedDomainSigns transform (AxiosResponse 200 body) =
        (\<exists>sign \<in> set parkingSigns. contains_ignoring_case page sign))
   \<and> (transform body = StringData (before @ phrase @ after)
        \<and> list_all2 same_letter phrase ''This domain is for sale'' \<longrightarrow>
      checkForParkedDomainSigns transform (AxiosResponse 200 body))
   \<and> (transform body = OtherData \<longrightarrow> \<not> checkForParkedDomainSigns transform (AxiosResponse 200 body))
   \<and> (code \<noteq> 200 \<longrightarrow> \<not> checkForParkedDomainSigns transform (AxiosResponse code body))
   \<and> \<not> checkForParkedDomainSigns transform AxiosThrows"
proof -
  have "''domain is for sale'' \<in> set parkingSigns" by (simp add: parkingSigns_def)
  then have "transform body = StringData (before @ phrase @ after)
        \<and> list_all2 same_letter phrase ''This domain is for sale'' \<longrightarrow>
      checkForParkedDomainSigns transform (AxiosResponse 200 body)"
    using for_sale_any_case [of phrase before after] parked_200 [of transform body "before @ phrase @ after"]
    by blast
  moreover have "transform body = StringData page \<longrightarrow>
      checkForParkedDomainSigns transform (AxiosResponse 200 body) =
        (\<exists>sign \<in> set parkingSigns. contains_ignoring_case page sign)"
    using parked_200 by blast
  ultimately show ?thesis by (simp add: checkForParkedDomainSigns_def)
qed

theorem parking_detection_witness:
  "list_all2 same_letter ''THIS Domain Is For SALE'' ''This domain is for sale''
   \<and> checkForParkedDomainSigns StringData
       (AxiosResponse 200 (''<h1>'' @ ''THIS Domain Is For SALE'' @ ''</h1>''))
   \<and> \<not> checkForParkedDomainSigns StringData (AxiosResponse 200 ''<h1>Welcome</h1>'')
   \<and> json_value_transform ''This domain is for sale'' = OtherData
   \<and> \<not> checkForParkedDomainSigns json_value_transform (AxiosResponse 200 ''This domain is for sale'')
   \<and> (203 :: nat) \<noteq> 200
   \<and> \<not> checkForParkedDomainSigns StringData (AxiosResponse 203 ''This domain is for sale'')"
proof -
  have "toLowerCase ''THIS Domain Is For SALE'' = toLowerCase ''This domain is for sale''"
    by (simp add: toLowerCase_def lower_char_def)
  then have a: "list_all2 same_letter ''THIS Domain Is For SALE'' ''This domain is for sale''"
    by (simp only: lowered_equal_iff)
  have b: "\<not> checkForParkedDomainSigns StringData (AxiosResponse 200 ''<h1>Welcome</h1>'')"
    by (simp add: checkForParkedDomainSigns_def parkingSigns_def toLowerCase_def lower_char_def)
  have c: "json_value_transform ''This domain is for sale'' = OtherData"
    by (simp add: json_value_transform_def)
  have p1: "checkForParkedDomainSigns StringData
       (AxiosResponse 200 (''<h1>'' @ ''THIS Domain Is For SALE'' @ ''</h1>''))"
    by (rule parking_detection [where transform = StringData
          and body = "''<h1>'' @ ''THIS Domain Is For SALE'' @ ''</h1>''"
          and before = "''<h1>''" and phrase = "''THIS Domain Is For SALE''" and after = "''</h1>''",
          THEN conjunct2, THEN conjunct1, THEN mp, OF conjI, OF refl a])
  have p2: "\<not> checkForParkedDomainSigns json_value_transform (AxiosResponse 200 ''This domain is for sale'')"
    by (rule parking_detection [where transform = json_value_transform
          and body = "''This domain is for sale''",
          THEN conjunct2, THEN conjunct2, THEN conjunct1, THEN mp, OF c])
  have d: "(203 :: nat) \<noteq> 200" by simp
  have p3: "\<not> checkForParkedDomainSigns StringData (AxiosResponse 203 ''This domain is for sale'')"
    by (rule parking_detection [where transform = StringData and code = 203
          and body = "''This domain is for sale''",
          THEN conjunct2, THEN conjunct2, THEN conjunct2, THEN conjunct1, THEN mp, OF d])
  show ?thesis using a p1 b c p2 d p3 by (intro conjI)
qed

text \<open>
  The statement of the specification fails for a response whose status is not 200: a
  body that is the sentence itself, received with status 203, is not reported as
  parked.
\<close>

theorem parking_status_counterexample:
  "''domain is for sale'' \<in> set parkingSigns
   \<and> contains_ignoring_case ''This domain is for sale'' ''domain is for sale''
   \<and> \<not> checkForParkedDomainSigns StringData (AxiosResponse 203 ''This domain is for sale'')"
proof -
  have "list_all2 same_letter ''This domain is for sale'' ''This domain is for sale''"
    by (simp only: lowered_equal_iff [symmetric])
  from for_sale_any_case [OF this, of "[]" "[]"]
  have "contains_ignoring_case ''This domain is for sale'' ''domain is for sale''" by simp
  then show ?thesis by (simp add: parkingSigns_def checkForParkedDomainSigns_def)
qed

section \<open>Batch analysis\<close>

lemma hybrid_fresh_domain: "domain (hybrid_fresh e d) = d"
  by (simp add: hybrid_fresh_def instant_analyze_def Let_def)

lemma hybrid_analyze_domain:
  assumes "cache_keyed c"
  shows "domain (fst (hybrid_analyze e c d)) = d"
proof (cases "cache_hit c (clock_now e) d")
  case None
  then show ?thesis by (simp add: hybrid_analyze_def Let_def hybrid_fresh_domain)
next
  case (Some a)
  then have "c d = Some a" by (rule cache_hit_Some)
  with assms Some show ?thesis by (simp add: hybrid_analyze_def cache_keyed_def)
qed

lemma cache_keyed_update: "cache_keyed c \<Longrightarrow> cache_keyed (c(d \<mapsto> hybrid_fresh e d))"
  by (simp add: cache_keyed_def hybrid_fresh_domain)

lemma cache_keyed_writes:
  "cache_keyed c \<Longrightarrow> cache_keyed (foldl (\<lambda>c' (k, d). c'(d \<mapsto> hybrid_fresh (env k) d)) c ws)"
proof (induction ws arbitrary: c)
  case Nil
  then show ?case by simp
next
  case (Cons w ws)
  obtain k d where w: "w = (k, d)" by (cases w)
  from Cons.prems have "cache_keyed (c(d \<mapsto> hybrid_fresh (env k) d))" by (rule cache_keyed_update)
  from Cons.IH [OF this] show ?case by (simp add: w)
qed

lemma dom_writes:
  "dom (foldl (\<lambda>c' (k, d). c'(d \<mapsto> hybrid_fresh (env k) d)) c ws) = dom c \<union> snd ` set ws"
proof (induction ws arbitrary: c)
  case Nil
  then show ?case by simp
next
  case (Cons w ws)
  let ?F = "\<lambda>c' (k, d). c'(d \<mapsto> hybrid_fresh (env k) d)"
  obtain k d where w: "w = (k, d)" by (cases w)
  have "dom (foldl ?F c (w # ws)) = dom (foldl ?F (?F c w) ws)" by (simp only: foldl_Cons)
  also have "\<dots> = dom (?F c w) \<union> snd ` set ws" by (rule Cons.IH)
  also have "\<dots> = dom c \<union> snd ` set (w # ws)" by (auto simp: w)
  finally show ?case .
qed

lemma run_group_length: "length (fst (run_group env i batch c)) = length batch"
  by (simp add: run_group_def Let_def)

lemma run_group_nth:
  assumes "j < length batch"
  shows "fst (run_group env i batch c) ! j = fst (hybrid_analyze (env (i + j)) c (batch ! j))"
  using assms by (simp add: run_group_def Let_def)

lemma run_group_keyed: "cache_keyed c \<Longrightarrow> cache_keyed (snd (run_group env i batch c))"
  by (simp add: run_group_def Let_def cache_keyed_writes)

lemma run_group_dom: "dom (snd (run_group env i batch c)) \<subseteq> dom c \<union> set batch"
proof -
  have "snd ` set (zip [i..<i + length batch] batch) \<subseteq> set batch"
    by (auto dest: set_zip_rightD)
  then show ?thesis
    by (auto simp: run_group_def Let_def dom_writes dest: set_zip_rightD)
qed

lemma cache_at_group_keyed: "cache_keyed c \<Longrightarrow> cache_keyed (cache_at_group env c domains g)"
  by (induction g) (simp_all add: run_group_keyed)

lemma cache_at_group_dom:
  "dom (cache_at_group env c domains g) \<subseteq> dom c \<union> set (take (g * BATCH_SIZE) domains)"
proof (induction g)
  case 0
  then show ?case by simp
next
  case (Suc g)
  let ?batch = "take BATCH_SIZE (drop (g * BATCH_SIZE) domains)"
  have "Suc g * BATCH_SIZE = g * BATCH_SIZE + BATCH_SIZE" by simp
  then have "take (Suc g * BATCH_SIZE) domains = take (g * BATCH_SIZE) domains @ ?batch"
    by (simp only: take_add)
  then have "set (take (Suc g * BATCH_SIZE) domains) = set (take (g * BATCH_SIZE) domains) \<union> set ?batch"
    by simp
  with Suc run_group_dom [of env "g * BATCH_SIZE" ?batch "cache_at_group env c domains g"]
  show ?case by (simp only: cache_at_group.simps) blast
qed

lemma batch_loop_invariant:
  assumes "i = g * BATCH_SIZE" "c = cache_at_group env c0 domains g"
    and "length results = min i (length domains)"
    and "\<forall>j < length results.
           results ! j =
             fst (hybrid_analyze (env j) (cache_at_group env c0 domains (j div BATCH_SIZE)) (domains ! j))"
  shows "length (fst (batch_loop env domains i results c)) = length domains
       \<and> (\<forall>j < length domains.
             fst (batch_loop env domains i results c) ! j =
               fst (hybrid_analyze (env j) (cache_at_group env c0 domains (j div BATCH_SIZE))
                      (domains ! j)))"
  using assms
proof (induction env domains i results c arbitrary: g rule: batch_loop.induct)
  case (1 env domains i results c)
  show ?case
  proof (cases "i < length domains")
    case False
    with "1.prems" show ?thesis by (subst (1 2) batch_loop.simps) simp
  next
    case True
    let ?batch = "take BATCH_SIZE (drop i domains)"
    let ?g = "run_group env i ?batch c"
    have len: "length results = i" using True "1.prems"(3) by simp
    have step: "batch_loop env domains i results c =
                batch_loop env domains (i + BATCH_SIZE) (results @ fst ?g) (snd ?g)"
      using True by (subst batch_loop.simps) (simp add: Let_def split_beta)
    have i': "i + BATCH_SIZE = Suc g * BATCH_SIZE" using "1.prems"(1) by simp
    have c': "snd ?g = cache_at_group env c0 domains (Suc g)"
      using "1.prems"(1,2) by simp
    have l: "length (results @ fst ?g) = min (i + BATCH_SIZE) (length domains)"
      using True len by (simp add: run_group_length)
    have a: "\<forall>j < length (results @ fst ?g).
               (results @ fst ?g) ! j =
                 fst (hybrid_analyze (env j) (cache_at_group env c0 domains (j div BATCH_SIZE))
                        (domains ! j))"
    proof (intro allI impI)
      fix j assume j: "j < length (results @ fst ?g)"
      show "(results @ fst ?g) ! j =
              fst (hybrid_analyze (env j) (cache_at_group env c0 domains (j div BATCH_SIZE))
                     (domains ! j))"
      proof (cases "j < length results")
        case True
        with "1.prems"(4) show ?thesis by (simp add: nth_append)
      next
        case False
        then have ji: "i \<le> j" using len by simp
        from j False len have "j - i < length (fst ?g)" by simp
        then have jb: "j - i < length ?batch" by (simp only: run_group_length)
        then have "j - i < BATCH_SIZE" by simp
        with ji "1.prems"(1) have jg: "j div BATCH_SIZE = g"
          by (simp add: BATCH_SIZE_def)
        have "(results @ fst ?g) ! j = fst ?g ! (j - i)"
          using False len by (simp add: nth_append)
        also have "\<dots> = fst (hybrid_analyze (env (i + (j - i))) c (?batch ! (j - i)))"
          using jb by (rule run_group_nth)
        also have "?batch ! (j - i) = domains ! j"
          using jb ji True by simp
        finally show ?thesis using ji jg "1.prems"(2) by simp
      qed
    qed
    from "1.IH" [OF True refl refl prod.collapse i' c' l a] show ?thesis
      unfolding step .
  qed
qed

lemma batch_results:
  "length (fst (analyzeBatch env c domains)) = length domains
   \<and> (\<forall>j < length domains.
         fst (analyzeBatch env c domains) ! j =
           fst (hybrid_analyze (env j) (cache_at_group env c domains (j div BATCH_SIZE)) (domains ! j)))"
  unfolding analyzeBatch_def by (rule batch_loop_invariant [where g = 0]) simp_all

lemma distinct_not_earlier:
  assumes "distinct xs" "j < length xs" "n \<le> j"
  shows "xs ! j \<notin> set (take n xs)"
proof
  assume "xs ! j \<in> set (take n xs)"
  then obtain k where k: "k < length (take n xs)" "take n xs ! k = xs ! j"
    by (auto simp: in_set_conv_nth)
  then have "k < n" "k < length xs" "xs ! k = xs ! j" by simp_all
  with assms have "k = j" by (simp add: nth_eq_iff_index_eq)
  with \<open>k < n\<close> assms(3) show False by simp
qed

text \<open>
  C9. For every list of domains, of any length, and every order in which the DNS
  requests of a group settle, \<open>analyzeBatch\<close> returns as many records as there are
  domains, and the record at each position is exactly what \<open>analyze\<close> returns for the
  domain at that position, called in the environment of that position on the cache as
  the earlier groups have left it. On a cache whose records are stored under their own
  domain, the domains of the records are the input list. When the domains are distinct
  and none is cached, the record at each position is the one computed afresh for that
  position.
\<close>

theorem batch_order:
  "length (fst (analyzeBatch env c domains)) = length domains
   \<and> (\<forall>j < length domains.
         fst (analyzeBatch env c domains) ! j =
           fst (hybrid_analyze (env j) (cache_at_group env c domains (j div BATCH_SIZE)) (domains ! j)))
   \<and> (cache_keyed c \<longrightarrow> map domain (fst (analyzeBatch env c domains)) = domains)
   \<and> (distinct domains \<and> (\<forall>d \<in> set domains. c d = None) \<longrightarrow>
        fst (analyzeBatch env c domains) =
          map (\<lambda>j. hybrid_fresh (env j) (domains ! j)) [0 ..< length domains])"
proof -
  note r = batch_results [of env c domains]
  have k: "map domain (fst (analyzeBatch env c domains)) = domains" if "cache_keyed c"
  proof (rule nth_equalityI)
    show "length (map domain (fst (analyzeBatch env c domains))) = length domains"
      using r by simp
  next
    fix j assume "j < length (map domain (fst (analyzeBatch env c domains)))"
    then have j: "j < length domains" using r by simp
    have "cache_keyed (cache_at_group env c domains (j div BATCH_SIZE))"
      using that by (rule cache_at_group_keyed)
    then show "map domain (fst (analyzeBatch env c domains)) ! j = domains ! j"
      using j r by (simp add: hybrid_analyze_domain)
  qed
  have f: "fst (analyzeBatch env c domains) =
          map (\<lambda>j. hybrid_fresh (env j) (domains ! j)) [0 ..< length domains]"
    if d: "distinct domains" and e: "\<forall>d \<in> set domains. c d = None"
  proof (rule nth_equalityI)
    show "length (fst (analyzeBatch env c domains)) =
          length (map (\<lambda>j. hybrid_fresh (env j) (domains ! j)) [0 ..< length domains])"
      using r by simp
  next
    fix j assume "j < length (fst (analyzeBatch env c domains))"
    then have j: "j < length domains" using r by simp
    let ?c = "cache_at_group env c domains (j div BATCH_SIZE)"
    have "j div BATCH_SIZE * BATCH_SIZE \<le> j" by simp
    with d j have "domains ! j \<notin> set (take (j div BATCH_SIZE * BATCH_SIZE) domains)"
      by (rule distinct_not_earlier)
    moreover have "domains ! j \<notin> dom c" using e j by (auto simp: dom_def)
    ultimately have "domains ! j \<notin> dom ?c"
      using cache_at_group_dom [of env c domains "j div BATCH_SIZE"] by blast
    then have "?c (domains ! j) = None" by (simp add: dom_def)
    then have "cache_hit ?c (clock_now (env j)) (domains ! j) = None" by (simp add: cache_hit_def)
    then have "fst (hybrid_analyze (env j) ?c (domains ! j)) = hybrid_fresh (env j) (domains ! j)"
      by (rule hybrid_miss)
    with r j show "fst (analyzeBatch env c domains) ! j =
          map (\<lambda>j. hybrid_fresh (env j) (domains ! j)) [0 ..< length domains] ! j"
      by simp
  qed
  from r k f show ?thesis by blast
qed

text \<open>
  A batch in which a domain is repeated: the first and the third call miss the cache
  together, the first settles last and its record is the one the fourth call finds.
\<close>

lemma first_group_cache:
  "cache_at_group reversed_settling Map.empty [''a.com'', ''b.com'', ''a.com'', ''a.com''] (Suc 0) ''a.com''
     = Some (hybrid_fresh (reversed_settling 0) ''a.com'')"
  by (simp add: run_group_def BATCH_SIZE_def Let_def hybrid_analyze_def cache_hit_def
        reversed_settling_def quiet_call_def upt_rec [of 0] upt_rec [of 1] upt_rec [of 2] upt_rec [of 3])

lemma fourth_call_hits:
  "cache_hit (cache_at_group reversed_settling Map.empty [''a.com'', ''b.com'', ''a.com'', ''a.com''] (Suc 0))
      (clock_now (reversed_settling 3)) ''a.com''
     = Some (hybrid_fresh (reversed_settling 0) ''a.com'')"
  unfolding cache_hit_def first_group_cache
  by (simp add: hybrid_fresh_def Let_def reversed_settling_def quiet_call_def CACHE_TTL_def)

theorem batch_order_witness:
  "length (fst (analyzeBatch reversed_settling Map.empty [''a.com'', ''b.com'', ''a.com'', ''a.com''])) = 4
   \<and> fst (analyzeBatch reversed_settling Map.empty [''a.com'', ''b.com'', ''a.com'', ''a.com'']) ! 3
       = hybrid_fresh (reversed_settling 0) ''a.com''
   \<and> last_checked (fst (analyzeBatch reversed_settling Map.empty
                          [''a.com'', ''b.com'', ''a.com'', ''a.com'']) ! 3) = 0
   \<and> cache_keyed Map.empty
   \<and> map domain (fst (analyzeBatch reversed_settling Map.empty [''a.com'', ''b.com'', ''a.com'', ''a.com'']))
       = [''a.com'', ''b.com'', ''a.com'', ''a.com'']
   \<and> distinct [''a.com'', ''b.com'', ''c.com'', ''d.com'']
   \<and> fst (analyzeBatch reversed_settling Map.empty [''a.com'', ''b.com'', ''c.com'', ''d.com''])
       = [hybrid_fresh (reversed_settling 0) ''a.com'', hybrid_fresh (reversed_settling 1) ''b.com'',
          hybrid_fresh (reversed_settling 2) ''c.com'', hybrid_fresh (reversed_settling 3) ''d.com'']"
proof -
  let ?ds = "[''a.com'', ''b.com'', ''a.com'', ''a.com'']"
  note t = batch_order [of reversed_settling Map.empty ?ds]
  have k: "cache_keyed Map.empty" by (simp add: cache_keyed_def)
  have l: "length (fst (analyzeBatch reversed_settling Map.empty ?ds)) = 4"
    using t by simp
  have "(3::nat) < length ?ds" by simp
  with t have "fst (analyzeBatch reversed_settling Map.empty ?ds) ! 3 =
          fst (hybrid_analyze (reversed_settling 3)
                 (cache_at_group reversed_settling Map.empty ?ds (3 div BATCH_SIZE)) (?ds ! 3))"
    by blast
  moreover have "3 div BATCH_SIZE = Suc 0" by (simp add: BATCH_SIZE_def)
  moreover have "?ds ! 3 = ''a.com''" by simp
  moreover have "fst (hybrid_analyze (reversed_settling 3)
                 (cache_at_group reversed_settling Map.empty ?ds (Suc 0)) ''a.com'')
       = hybrid_fresh (reversed_settling 0) ''a.com''"
    using fourth_call_hits by (rule hybrid_hit)
  ultimately have n: "fst (analyzeBatch reversed_settling Map.empty ?ds) ! 3
       = hybrid_fresh (reversed_settling 0) ''a.com''"
    by (simp only:)
  have c: "last_checked (hybrid_fresh (reversed_settling 0) ''a.com'') = 0"
    by (simp add: hybrid_fresh_def Let_def reversed_settling_def)
  have m: "map domain (fst (analyzeBatch reversed_settling Map.empty ?ds)) = ?ds"
    using t k by blast
  have d: "distinct [''a.com'', ''b.com'', ''c.com'', ''d.com'']" by simp
  have "fst (analyzeBatch reversed_settling Map.empty [''a.com'', ''b.com'', ''c.com'', ''d.com''])
       = map (\<lambda>j. hybrid_fresh (reversed_settling j) ([''a.com'', ''b.com'', ''c.com'', ''d.com''] ! j))
           [0 ..< length [''a.com'', ''b.com'', ''c.com'', ''d.com'']]"
    using batch_order [of reversed_settling Map.empty "[''a.com'', ''b.com'', ''c.com'', ''d.com'']"] d
    by simp
  then have f: "fst (analyzeBatch reversed_settling Map.empty [''a.com'', ''b.com'', ''c.com'', ''d.com''])
       = [hybrid_fresh (reversed_settling 0) ''a.com'', hybrid_fresh (reversed_settling 1) ''b.com'',
          hybrid_fresh (reversed_settling 2) ''c.com'', hybrid_fresh (reversed_settling 3) ''d.com'']"
    by (simp add: upt_rec [of 0] upt_rec [of 1] upt_rec [of 2] upt_rec [of 3] eval_nat_numeral)
  show ?thesis using l n c k m d f by simp
qed

end
